theory Spec2Isabelle
  imports Main "HOL-Library.FSet" "HOL-Library.List_Lexorder" "HOL-Library.Char_ord"
    "HOL-Library.Sublist"
begin

section \<open>Python strings\<close>

text \<open>
  A Python \<open>str\<close> is modelled as a \<open>string\<close>: a list of characters, each character a code
  point below 256 (ASCII and the Latin-1 supplement). Comparison of two strings is
  lexicographic by code point, as Python's is (\<open>List_Lexorder\<close> over \<open>Char_ord\<close>).
\<close>

text \<open>\<open>s.lstrip(chars)\<close>, \<open>s.rstrip(chars)\<close> and \<open>s.strip(chars)\<close>: every leading (trailing)
  character that belongs to \<open>chars\<close> is removed, not only the first one. They are stated
  for lists of any kind of character, since one function below is also given on strings
  of arbitrary code points.\<close>

definition lstrip :: "('a \<Rightarrow> bool) \<Rightarrow> 'a list \<Rightarrow> 'a list" where
  "lstrip P s = dropWhile P s"

definition rstrip :: "('a \<Rightarrow> bool) \<Rightarrow> 'a list \<Rightarrow> 'a list" where
  "rstrip P s = rev (dropWhile P (rev s))"

definition strip :: "('a \<Rightarrow> bool) \<Rightarrow> 'a list \<Rightarrow> 'a list" where
  "strip P s = rstrip P (lstrip P s)"

definition is_slash :: "char \<Rightarrow> bool" where
  "is_slash c = (c = CHR ''/'')"

text \<open>\<open>str.isspace\<close> on the code points below 256: what \<open>s.strip()\<close> without an argument
  removes.\<close>

definition isspace :: "char \<Rightarrow> bool" where
  "isspace c = (c \<in> set [CHR 0x09, CHR 0x0A, CHR 0x0B, CHR 0x0C, CHR 0x0D,
                          CHR 0x1C, CHR 0x1D, CHR 0x1E, CHR 0x1F, CHR 0x20,
                          CHR 0x85, CHR 0xA0])"

section \<open>The FuzzDriller object\<close>

text \<open>
  The fields of \<open>FuzzDriller\<close>. Headers and cookies are only stored and handed to the HTTP
  client, so their type is left open. \<open>session\<close> records whether \<open>self.session\<close> holds a
  client session (\<open>True\<close>) or is still \<open>None\<close>.
\<close>

record 'j driller =
  base_url :: string
  wordlist :: string
  output_file :: string
  headers :: 'j
  cookies :: 'j
  methods :: "string list"
  valid_status_codes :: "int list"
  found_endpoints :: "string fset"
  session :: bool
  total_tasks :: nat
  completed_tasks :: nat

text \<open>\<open>FuzzDriller.__init__\<close>\<close>

definition FuzzDriller_init ::
  "string \<Rightarrow> string \<Rightarrow> string \<Rightarrow> 'j \<Rightarrow> 'j \<Rightarrow> string list \<Rightarrow> int list \<Rightarrow> 'j driller" where
  "FuzzDriller_init base_url' wordlist' output_file' headers' cookies' methods' valid_status_codes' =
     \<lparr> base_url = rstrip is_slash base_url',
       wordlist = wordlist',
       output_file = output_file',
       headers = headers',
       cookies = cookies',
       methods = methods',
       valid_status_codes = valid_status_codes',
       found_endpoints = {||},
       session = False,
       total_tasks = 0,
       completed_tasks = 0 \<rparr>"

text \<open>The first line of \<open>_fetch\<close>: \<open>url = f"{self.base_url}/{path.lstrip('/')}"\<close>\<close>

definition fetch_url :: "'j driller \<Rightarrow> string \<Rightarrow> string" where
  "fetch_url d path = base_url d @ ''/'' @ lstrip is_slash path"

section \<open>Probing\<close>

definition MAX_CONCURRENT_REQUESTS :: nat where
  "MAX_CONCURRENT_REQUESTS = 100"

definition COMMON_PATHS :: "string list" where
  "COMMON_PATHS = [''/admin'', ''/login'', ''/dashboard'', ''/user'', ''/api'']"

text \<open>Exceptions that the modelled code can raise.\<close>

datatype error = OSError | ZeroDivisionError | JSONDecodeError | ValueError

text \<open>What the HTTP client does with one request: it yields a response with a status code,
  or the request raises an exception (connection refused, timeout, DNS or TLS failure).\<close>

datatype outcome = Status int | Raised

text \<open>The messages handed to the logger, by the call that produces them.\<close>

datatype log_entry =
    FoundLog int string
  | FetchErrorLog string
  | LoadedLog nat
  | NoEndpointsLog
  | SavedLog string
  | DownloadedLog string string
  | DownloadFailedLog string
  | DownloadingLog
  | DownloadCompletedLog

datatype level = INFO | WARNING | ERROR

fun level_of :: "log_entry \<Rightarrow> level" where
  "level_of (FoundLog st url) = INFO"
| "level_of (FetchErrorLog url) = ERROR"
| "level_of (LoadedLog n) = INFO"
| "level_of NoEndpointsLog = WARNING"
| "level_of (SavedLog f) = INFO"
| "level_of (DownloadedLog url f) = INFO"
| "level_of (DownloadFailedLog url) = ERROR"
| "level_of DownloadingLog = INFO"
| "level_of DownloadCompletedLog = INFO"

text \<open>\<open>self.session.request(...)\<close> and \<open>self.session.get(...)\<close>: while \<open>self.session\<close> is
  \<open>None\<close> the attribute access raises, inside the \<open>try\<close> block.\<close>

definition session_request :: "'j driller \<Rightarrow> outcome \<Rightarrow> outcome" where
  "session_request d resp = (if session d then resp else Raised)"

text \<open>\<open>_print_progress_bar\<close>: the bar itself is floating-point rendering on the terminal;
  what matters to its caller is that the division raises when \<open>total_tasks\<close> is zero.\<close>

definition print_progress_bar :: "'j driller \<Rightarrow> error + unit" where
  "print_progress_bar d = (if total_tasks d = 0 then Inl ZeroDivisionError else Inr ())"

text \<open>
  \<open>_fetch\<close>, from the moment the request has been answered (\<open>resp\<close>): the \<open>try\<close> body, the
  \<open>except Exception\<close> handler and the \<open>finally\<close> block. The result is the object after
  the call, the log lines, and the returned status (\<open>None\<close> after a caught exception) or
  the exception that leaves the \<open>finally\<close> block.
\<close>

definition fetch ::
  "'j driller \<Rightarrow> string \<Rightarrow> string \<Rightarrow> outcome \<Rightarrow> 'j driller \<times> log_entry list \<times> (error + int option)" where
  "fetch d path method resp =
     (let url = fetch_url d path;
          (d1, lg, ret) =
            (case session_request d resp of
               Status st \<Rightarrow>
                 if st \<in> set (valid_status_codes d)
                 then (d\<lparr>found_endpoints := finsert url (found_endpoints d)\<rparr>, [FoundLog st url], Some st)
                 else (d, [], Some st)
             | Raised \<Rightarrow> (d, [FetchErrorLog url], None));
          d2 = d1\<lparr>completed_tasks := completed_tasks d1 + 1\<rparr>
      in case print_progress_bar d2 of
           Inl e \<Rightarrow> (d2, lg, Inl e)
         | Inr u \<Rightarrow> (d2, lg, Inr ret))"

subsection \<open>The wordlist\<close>

text \<open>The wordlist path on disk: nothing there (\<open>os.path.exists\<close> is false), a text file
  given by the lines that iterating over it yields, or something \<open>open\<close> cannot read.\<close>

datatype wordlist_file = Absent | Text "string list" | Unreadable

text \<open>
  \<open>_load_wordlist\<close>. \<open>list(set(paths))\<close> removes the duplicates and leaves the order of
  the result to the hash table; the model keeps the order of \<open>remdups\<close>, and nothing below
  depends on the order.
\<close>

definition load_wordlist :: "wordlist_file \<Rightarrow> error + string list" where
  "load_wordlist f =
     (case f of
        Absent \<Rightarrow> Inr (remdups ([] @ COMMON_PATHS))
      | Text ls \<Rightarrow>
          Inr (remdups (([] @ map (strip isspace) (filter (\<lambda>line. strip isspace line \<noteq> []) ls))
                        @ COMMON_PATHS))
      | Unreadable \<Rightarrow> Inl OSError)"

subsection \<open>Dispatch under the semaphore\<close>

text \<open>
  \<open>_process_paths\<close> creates one \<open>_bound_fetch(path, method)\<close> task per path and method and
  awaits them all. A task waits for the semaphore, then issues its request and is in
  flight until the request is answered, then runs the rest of \<open>_fetch\<close> and leaves the
  \<open>async with sem\<close> block, which releases the semaphore. Between two suspension points a
  task runs alone (cooperative scheduling), so a run is a sequence of two kinds of events.
\<close>

datatype phase = Waiting | InFlight | Completed

datatype event = Acquire nat | Complete nat

record 'j run_state =
  drl :: "'j driller"
  sem :: nat
  tasks :: "(string \<times> string \<times> phase) list"
  raised :: "error option"
  logged :: "log_entry list"

definition phase_of :: "string \<times> string \<times> phase \<Rightarrow> phase" where
  "phase_of t = snd (snd t)"

text \<open>\<open>_process_paths\<close> up to \<open>asyncio.gather\<close>: the semaphore, \<open>total_tasks\<close>, and the
  tasks in the order of the two nested loops.\<close>

definition process_paths_init :: "'j driller \<Rightarrow> string list \<Rightarrow> 'j run_state" where
  "process_paths_init d paths =
     \<lparr> drl = d\<lparr>total_tasks := length paths * length (methods d)\<rparr>,
       sem = MAX_CONCURRENT_REQUESTS,
       tasks = concat (map (\<lambda>path. map (\<lambda>method. (path, method, Waiting)) (methods d)) paths),
       raised = None,
       logged = [] \<rparr>"

text \<open>
  One event. \<open>Acquire i\<close>: task \<open>i\<close> enters \<open>async with sem\<close>, possible only while the
  semaphore's counter is positive, and sends its request. \<open>Complete i\<close>: the request of
  task \<open>i\<close> is answered with \<open>resp i\<close>; the task finishes \<open>_fetch\<close> and releases the
  semaphore, also when an exception leaves \<open>_fetch\<close>. An event that cannot happen in the
  state gives \<open>None\<close>; once an exception has reached \<open>gather\<close> the run is over. Any
  waiting task may enter when a slot is free: the semaphore of \<open>asyncio\<close> serves its
  waiters in order, so its runs are among the runs of this model.
\<close>

fun exec :: "(nat \<Rightarrow> outcome) \<Rightarrow> 'j run_state \<Rightarrow> event \<Rightarrow> 'j run_state option" where
  "exec resp s (Acquire i) =
     (if raised s = None \<and> i < length (tasks s) \<and> phase_of (tasks s ! i) = Waiting \<and> 0 < sem s
      then Some (s\<lparr>sem := sem s - 1,
                   tasks := (tasks s)[i := (fst (tasks s ! i), fst (snd (tasks s ! i)), InFlight)]\<rparr>)
      else None)"
| "exec resp s (Complete i) =
     (if raised s = None \<and> i < length (tasks s) \<and> phase_of (tasks s ! i) = InFlight
      then (case fetch (drl s) (fst (tasks s ! i)) (fst (snd (tasks s ! i))) (resp i) of
              (d', lg, r) \<Rightarrow>
                Some (s\<lparr>drl := d',
                        sem := sem s + 1,
                        tasks := (tasks s)[i := (fst (tasks s ! i), fst (snd (tasks s ! i)), Completed)],
                        raised := (case r of Inl e \<Rightarrow> Some e | Inr v \<Rightarrow> None),
                        logged := logged s @ lg\<rparr>))
      else None)"

fun run :: "(nat \<Rightarrow> outcome) \<Rightarrow> 'j run_state \<Rightarrow> event list \<Rightarrow> 'j run_state option" where
  "run resp s [] = Some s"
| "run resp s (e # es) = (case exec resp s e of None \<Rightarrow> None | Some s' \<Rightarrow> run resp s' es)"

text \<open>The number of requests in flight, and \<open>asyncio.gather\<close> returning: every task is
  done and none has raised.\<close>

definition in_flight :: "'j run_state \<Rightarrow> nat" where
  "in_flight s = length (filter (\<lambda>t. phase_of t = InFlight) (tasks s))"

definition n_completed :: "'j run_state \<Rightarrow> nat" where
  "n_completed s = length (filter (\<lambda>t. phase_of t = Completed) (tasks s))"

definition gather_done :: "'j run_state \<Rightarrow> bool" where
  "gather_done s = (raised s = None \<and> list_all (\<lambda>t. phase_of t = Completed) (tasks s))"

text \<open>\<open>start\<close> between loading the wordlist and saving the results: the session is opened
  and \<open>_process_paths\<close> begins.\<close>

definition start_dispatch :: "'j driller \<Rightarrow> string list \<Rightarrow> 'j run_state" where
  "start_dispatch d paths = process_paths_init (d\<lparr>session := True\<rparr>) paths"

subsection \<open>The report\<close>

text \<open>The text files on disk, by path.\<close>

type_synonym files = "string \<rightharpoonup> string"

text \<open>
  What the file system does when a path is opened for writing and a text is written to
  it: it takes the whole text; or opening the path raises (a missing directory, no
  permission) and nothing is changed; or the file is opened, which empties it, and a
  write raises when the file has taken the first \<open>n\<close> characters of the text.
\<close>

datatype io_outcome = IoOk | OpenRaises | WriteRaises nat

text \<open>
  \<open>_save_results\<close>: opening the output file with mode \<open>'w'\<close> replaces what the file
  held. Neither \<open>open\<close> nor \<open>write\<close> is inside a \<open>try\<close>: the result is the files afterwards,
  the log lines, and the exception that leaves the method, if any. \<open>io\<close> says what the
  file system does with each path.
\<close>

definition save_results ::
  "'j driller \<Rightarrow> (string \<Rightarrow> io_outcome) \<Rightarrow> files \<Rightarrow> files \<times> log_entry list \<times> error option" where
  "save_results d io fs =
     (if found_endpoints d = {||} then (fs, [NoEndpointsLog], None)
      else (let report = concat (map (\<lambda>endpoint. endpoint @ [CHR 0x0A])
                                     (sorted_list_of_fset (found_endpoints d)))
            in case io (output_file d) of
                 OpenRaises \<Rightarrow> (fs, [], Some OSError)
               | WriteRaises n \<Rightarrow> (fs(output_file d \<mapsto> take n report), [], Some OSError)
               | IoOk \<Rightarrow> (fs(output_file d \<mapsto> report), [SavedLog (output_file d)], None)))"

text \<open>A file system for the examples: the directory \<open>no_such_dir\<close> does not exist, every
  other path can be written.\<close>

definition missing_dir_io :: "string \<Rightarrow> io_outcome" where
  "missing_dir_io path = (if prefix ''no_such_dir/'' path then OpenRaises else IoOk)"

text \<open>The lines of a text, without their terminators.\<close>

fun file_lines :: "string \<Rightarrow> string list" where
  "file_lines [] = []"
| "file_lines (c # cs) =
     (if c = CHR 0x0A then [] # file_lines cs
      else (case file_lines cs of [] \<Rightarrow> [[c]] | l # ls \<Rightarrow> (c # l) # ls))"

section \<open>Downloading\<close>

text \<open>\<open>sub in s\<close> for two strings: \<open>sub\<close> occurs in \<open>s\<close> as a contiguous piece.\<close>

fun str_contains :: "'a list \<Rightarrow> 'a list \<Rightarrow> bool" where
  "str_contains sub [] = (sub = [])"
| "str_contains sub (c # cs) = (prefix sub (c # cs) \<or> str_contains sub cs)"

text \<open>\<open>_get_file_extension\<close>\<close>

definition get_file_extension :: "string \<Rightarrow> string option" where
  "get_file_extension content_type =
     (if str_contains ''text/html'' content_type then Some ''html''
      else if str_contains ''application/javascript'' content_type then Some ''js''
      else if str_contains ''application/x-httpd-php'' content_type
              \<or> str_contains ''text/x-php'' content_type then Some ''php''
      else None)"

text \<open>\<open>s.replace(old, '')\<close>: the occurrences of \<open>old\<close> are removed from left to right,
  without overlap; an empty \<open>old\<close> leaves \<open>s\<close> as it is.\<close>

function str_remove :: "'a list \<Rightarrow> 'a list \<Rightarrow> 'a list" where
  "str_remove old [] = []"
| "str_remove old (c # cs) =
     (if old \<noteq> [] \<and> prefix old (c # cs) then str_remove old (drop (length old) (c # cs))
      else c # str_remove old cs)"
  by pat_completeness auto
termination
  by (relation "measure (\<lambda>(old, s). length s)") auto

text \<open>The regular expression class \<open>\w\<close> of a \<open>str\<close> pattern, on the code points below
  256: the ASCII letters and digits and the underscore, and the letters and numeric
  characters of the Latin-1 supplement.\<close>

definition latin1_word :: "nat \<Rightarrow> bool" where
  "latin1_word n =
     ((48 \<le> n \<and> n \<le> 57) \<or> (65 \<le> n \<and> n \<le> 90) \<or> n = 95 \<or> (97 \<le> n \<and> n \<le> 122)
      \<or> n \<in> set [170, 178, 179, 181, 185, 186, 188, 189, 190]
      \<or> (192 \<le> n \<and> n \<le> 214) \<or> (216 \<le> n \<and> n \<le> 246) \<or> (248 \<le> n \<and> n \<le> 255))"

definition is_word_char :: "char \<Rightarrow> bool" where
  "is_word_char c = latin1_word (of_char c)"

text \<open>One character under \<open>re.sub(r'[^\w\-_]', '_', ...)\<close>\<close>

definition sanitize_char :: "char \<Rightarrow> char" where
  "sanitize_char c = (if is_word_char c \<or> c = CHR ''-'' \<or> c = CHR ''_'' then c else CHR ''_'')"

text \<open>\<open>_sanitize_filename\<close>\<close>

definition sanitize_filename :: "'j driller \<Rightarrow> string \<Rightarrow> string" where
  "sanitize_filename d url = map sanitize_char (strip is_slash (str_remove (base_url d) url))"

text \<open>
  The same method on strings of arbitrary code points, each a natural number: 47 is the
  slash, 45 the hyphen and 95 the underscore. From 256 on, \<open>\w\<close> contains the code points
  that the Unicode character database classifies as alphanumeric; \<open>uni\<close> stands for that
  table.
\<close>

definition is_word_point :: "(nat \<Rightarrow> bool) \<Rightarrow> nat \<Rightarrow> bool" where
  "is_word_point uni n = (if n < 256 then latin1_word n else uni n)"

definition sanitize_point :: "(nat \<Rightarrow> bool) \<Rightarrow> nat \<Rightarrow> nat" where
  "sanitize_point uni n = (if is_word_point uni n \<or> n = 45 \<or> n = 95 then n else 95)"

definition sanitize_filename_points :: "(nat \<Rightarrow> bool) \<Rightarrow> nat list \<Rightarrow> nat list \<Rightarrow> nat list" where
  "sanitize_filename_points uni base url =
     map (sanitize_point uni) (strip (\<lambda>n. n = 47) (str_remove base url))"

text \<open>What the HTTP client does with the GET request of a download: a response with its
  status, its \<open>Content-Type\<close> header if it has one and its body as text (\<open>None\<close> when
  \<open>response.text()\<close> raises), or an exception raised by the request.\<close>

datatype get_outcome = GetResponse int "string option" "string option" | GetRaised

text \<open>
  \<open>download_content\<close>: the file that the call leaves behind, as path and content, if it
  touches one, and the log lines. \<open>os.path.join\<close> puts a slash between the directory and
  the file name, which never begins with a slash. Everything is inside the \<open>try\<close>: when
  \<open>makedirs\<close> or \<open>open\<close> raises there is no file; when the file is open it is empty, and it
  stays so when \<open>response.text()\<close> raises; when a write raises it holds the beginning of
  the body. Each of these is logged as a failed download.
\<close>

definition download_content ::
  "'j driller \<Rightarrow> (string \<Rightarrow> io_outcome) \<Rightarrow> string \<Rightarrow> get_outcome
     \<Rightarrow> (string \<times> string) option \<times> log_entry list" where
  "download_content d io url resp =
     (case (if session d then resp else GetRaised) of
        GetRaised \<Rightarrow> (None, [DownloadFailedLog url])
      | GetResponse st ct body \<Rightarrow>
          if st \<in> set (valid_status_codes d)
          then (let content_type = (case ct of None \<Rightarrow> [] | Some v \<Rightarrow> v)
                in case get_file_extension content_type of
                     None \<Rightarrow> (None, [])
                   | Some extension \<Rightarrow>
                       (let file_name = sanitize_filename d url;
                            file_path = ''downloaded_pages'' @ ''/'' @ (file_name @ ''.'' @ extension)
                        in case io file_path of
                             OpenRaises \<Rightarrow> (None, [DownloadFailedLog url])
                           | WriteRaises n \<Rightarrow>
                               (case body of
                                  None \<Rightarrow> (Some (file_path, []), [DownloadFailedLog url])
                                | Some text \<Rightarrow>
                                    (Some (file_path, take n text), [DownloadFailedLog url]))
                           | IoOk \<Rightarrow>
                               (case body of
                                  None \<Rightarrow> (Some (file_path, []), [DownloadFailedLog url])
                                | Some text \<Rightarrow>
                                    (Some (file_path, text), [DownloadedLog url file_path]))))
          else (None, []))"

text \<open>
  \<open>download_discovered_endpoints\<close>: one \<open>download_content\<close> task per URL of
  \<open>found_endpoints\<close>, all awaited together; \<open>web\<close> gives the answer to the GET request of
  each URL. The result is the list of URLs for which a task was created, the files
  left behind and the log. The tasks are listed in ascending order of their URLs (Python
  leaves the order to the hash table).
\<close>

definition download_discovered_endpoints ::
  "'j driller \<Rightarrow> (string \<Rightarrow> io_outcome) \<Rightarrow> (string \<Rightarrow> get_outcome)
     \<Rightarrow> string list \<times> (string \<times> string) list \<times> log_entry list" where
  "download_discovered_endpoints d io web =
     (let urls = sorted_list_of_fset (found_endpoints d);
          results = map (\<lambda>url. download_content d io url (web url)) urls
      in (urls,
          List.map_filter fst results,
          [DownloadingLog] @ concat (map snd results) @ [DownloadCompletedLog]))"

section \<open>The interactive menu\<close>

definition DEFAULT_WORDLIST :: string where
  "DEFAULT_WORDLIST = ''Wordlist/pro_100.txt''"

definition DEFAULT_OUTPUT :: string where
  "DEFAULT_OUTPUT = ''endpoints.txt''"

definition VALID_STATUS_CODES :: "int list" where
  "VALID_STATUS_CODES = [200..299] @ [401, 403]"

definition DEFAULT_METHODS :: "string list" where
  "DEFAULT_METHODS = [''HEAD'']"

text \<open>The local variables of \<open>interactive_menu\<close> that hold the configuration. \<open>base_url\<close>
  is \<open>None\<close> until the operator sets it.\<close>

record 'j config =
  cfg_base_url :: "string option"
  cfg_wordlist :: string
  cfg_output_file :: string
  cfg_headers :: 'j
  cfg_cookies :: 'j
  cfg_methods :: "string list"
  cfg_valid_status_codes :: "int list"

text \<open>\<open>s.split(',')\<close>\<close>

fun split_comma :: "string \<Rightarrow> string list" where
  "split_comma [] = [[]]"
| "split_comma (c # cs) =
     (if c = CHR '','' then [] # split_comma cs
      else (case split_comma cs of [] \<Rightarrow> [[c]] | piece # pieces \<Rightarrow> (c # piece) # pieces))"

text \<open>
  \<open>int(s)\<close> for a string of code points below 256: whitespace around the number is
  ignored, then comes an optional sign and decimal digits, where single underscores may
  stand between digits. Anything else raises \<open>ValueError\<close> (\<open>None\<close>). The interpreter's
  limit on the number of digits is left out.
\<close>

definition int_space :: "char \<Rightarrow> bool" where
  "int_space c = (c \<in> set [CHR 0x09, CHR 0x0A, CHR 0x0B, CHR 0x0C, CHR 0x0D, CHR 0x20,
                            CHR 0x85, CHR 0xA0])"

definition is_digit :: "char \<Rightarrow> bool" where
  "is_digit c = (48 \<le> (of_char c :: nat) \<and> (of_char c :: nat) \<le> 57)"

fun parse_digits :: "string \<Rightarrow> bool \<Rightarrow> nat \<Rightarrow> nat option" where
  "parse_digits [] after_digit acc = (if after_digit then Some acc else None)"
| "parse_digits (c # cs) after_digit acc =
     (if is_digit c then parse_digits cs True (10 * acc + (of_char c - 48))
      else if c = CHR ''_'' \<and> after_digit then parse_digits cs False acc
      else None)"

definition py_int :: "string \<Rightarrow> int option" where
  "py_int s =
     (case strip int_space s of
        [] \<Rightarrow> None
      | c # cs \<Rightarrow>
          if c = CHR ''-'' then map_option (\<lambda>n. - int n) (parse_digits cs False 0)
          else if c = CHR ''+'' then map_option int (parse_digits cs False 0)
          else map_option int (parse_digits (c # cs) False 0))"

text \<open>\<open>list(map(int, pieces))\<close>: the first piece that is not an integer raises.\<close>

fun map_int :: "string list \<Rightarrow> int list option" where
  "map_int [] = Some []"
| "map_int (p # ps) =
     (case py_int p of
        None \<Rightarrow> None
      | Some n \<Rightarrow> (case map_int ps of None \<Rightarrow> None | Some ns \<Rightarrow> Some (n # ns)))"

text \<open>The seven lines that the operator types when asked by option 2.\<close>

record answers =
  ans_base_url :: string
  ans_wordlist :: string
  ans_output_file :: string
  ans_headers :: string
  ans_cookies :: string
  ans_methods :: string
  ans_status_codes :: string

text \<open>
  Option 2 of the menu, statement by statement. \<open>json_loads\<close> stands for \<open>json.loads\<close>
  (\<open>None\<close> when it raises \<open>JSONDecodeError\<close>). No statement of the option is inside a
  \<open>try\<close>: the result is the exception raised, if any, and the variables as they are when
  the option ends or the exception leaves it.
\<close>

definition set_configurations ::
  "(string \<Rightarrow> 'j option) \<Rightarrow> 'j config \<Rightarrow> answers \<Rightarrow> error option \<times> 'j config" where
  "set_configurations json_loads cfg a =
     (let cfg1 = cfg\<lparr>cfg_base_url :=
                    (if strip isspace (ans_base_url a) \<noteq> [] then Some (strip isspace (ans_base_url a))
                     else cfg_base_url cfg)\<rparr>;
          cfg2 = cfg1\<lparr>cfg_wordlist :=
                    (if strip isspace (ans_wordlist a) \<noteq> [] then strip isspace (ans_wordlist a)
                     else cfg_wordlist cfg1)\<rparr>;
          cfg3 = cfg2\<lparr>cfg_output_file :=
                    (if strip isspace (ans_output_file a) \<noteq> [] then strip isspace (ans_output_file a)
                     else cfg_output_file cfg2)\<rparr>;
          headers_input = strip isspace (ans_headers a);
          cookies_input = strip isspace (ans_cookies a);
          methods_input = strip isspace (ans_methods a);
          status_codes_input = strip isspace (ans_status_codes a)
      in case (if headers_input \<noteq> [] then json_loads headers_input else Some (cfg_headers cfg3)) of
           None \<Rightarrow> (Some JSONDecodeError, cfg3)
         | Some headers' \<Rightarrow>
             (let cfg4 = cfg3\<lparr>cfg_headers := headers'\<rparr>
              in case (if cookies_input \<noteq> [] then json_loads cookies_input
                       else Some (cfg_cookies cfg4)) of
                   None \<Rightarrow> (Some JSONDecodeError, cfg4)
                 | Some cookies' \<Rightarrow>
                     (let cfg5 = cfg4\<lparr>cfg_cookies := cookies'\<rparr>;
                          cfg6 = cfg5\<lparr>cfg_methods :=
                                   (if methods_input \<noteq> [] then split_comma methods_input
                                    else cfg_methods cfg5)\<rparr>
                      in case (if status_codes_input \<noteq> []
                               then map_int (split_comma status_codes_input)
                               else Some (cfg_valid_status_codes cfg6)) of
                           None \<Rightarrow> (Some ValueError, cfg6)
                         | Some codes \<Rightarrow> (None, cfg6\<lparr>cfg_valid_status_codes := codes\<rparr>))))"

text \<open>What the menu does that can be seen from outside: the messages of its branches, and
  the two phases it can start, each with the object constructed for it. A download comes
  with the URLs for which a task is created and the files written.\<close>

datatype 'j action =
    SetTargetFirst
  | Fuzzing "'j driller"
  | ConfigUpdated
  | ConfigShown "'j config"
  | ScanTargetFirst
  | Downloading "'j driller" "string list" "(string \<times> string) list"
  | Goodbye
  | InvalidChoice

text \<open>How the loop stands after the lines typed so far: ended by option 5, ended by an
  exception, or asking for the next choice.\<close>

datatype menu_end = Exited | Crashed error | Prompting

text \<open>\<open>if not base_url\<close> holds for \<open>None\<close> and for the empty string.\<close>

definition target_of :: "'j config \<Rightarrow> string option" where
  "target_of cfg =
     (case cfg_base_url cfg of None \<Rightarrow> None | Some b \<Rightarrow> if b = [] then None else Some b)"

text \<open>The constructor call of options 1 and 4.\<close>

definition make_fuzzer :: "string \<Rightarrow> 'j config \<Rightarrow> 'j driller" where
  "make_fuzzer b cfg =
     FuzzDriller_init b (cfg_wordlist cfg) (cfg_output_file cfg) (cfg_headers cfg) (cfg_cookies cfg)
       (cfg_methods cfg) (cfg_valid_status_codes cfg)"

text \<open>
  One pass through the body of the \<open>while True\<close> loop: the line typed at the prompt and,
  for option 2, the answers. The result says whether the loop ends (\<open>Some\<close>) or goes on
  (\<open>None\<close>), and gives the configuration and what was done. \<open>web\<close> answers the GET requests
  of a download and \<open>io\<close> is the file system it writes to. The probing run that option 1
  starts is described in the sections above; here it is only recorded with the object it
  runs on, and is taken to return: a run that raises, as when the report file cannot be
  opened, ends the loop at that pass.
\<close>

definition menu_step ::
  "(string \<Rightarrow> 'j option) \<Rightarrow> (string \<Rightarrow> io_outcome) \<Rightarrow> (string \<Rightarrow> get_outcome) \<Rightarrow> 'j config
     \<Rightarrow> string \<times> answers \<Rightarrow> menu_end option \<times> 'j config \<times> 'j action list" where
  "menu_step json_loads io web cfg typed =
     (let choice = strip isspace (fst typed) in
      if choice = ''1'' then
        (case target_of cfg of
           None \<Rightarrow> (None, cfg, [SetTargetFirst])
         | Some b \<Rightarrow> (None, cfg, [Fuzzing (make_fuzzer b cfg)]))
      else if choice = ''2'' then
        (case set_configurations json_loads cfg (snd typed) of
           (Some e, cfg') \<Rightarrow> (Some (Crashed e), cfg', [])
         | (None, cfg') \<Rightarrow> (None, cfg', [ConfigUpdated]))
      else if choice = ''3'' then (None, cfg, [ConfigShown cfg])
      else if choice = ''4'' then
        (case target_of cfg of
           None \<Rightarrow> (None, cfg, [ScanTargetFirst])
         | Some b \<Rightarrow>
             (let fuzzer = make_fuzzer b cfg;
                  (urls, files, lg) = download_discovered_endpoints fuzzer io web
              in (None, cfg, [Downloading fuzzer urls files])))
      else if choice = ''5'' then (Some Exited, cfg, [Goodbye])
      else (None, cfg, [InvalidChoice]))"

fun menu_loop ::
  "(string \<Rightarrow> 'j option) \<Rightarrow> (string \<Rightarrow> io_outcome) \<Rightarrow> (string \<Rightarrow> get_outcome) \<Rightarrow> 'j config
     \<Rightarrow> (string \<times> answers) list \<Rightarrow> menu_end \<times> 'j config \<times> 'j action list" where
  "menu_loop json_loads io web cfg [] = (Prompting, cfg, [])"
| "menu_loop json_loads io web cfg (typed # rest) =
     (case menu_step json_loads io web cfg typed of
        (Some e, cfg', acts) \<Rightarrow> (e, cfg', acts)
      | (None, cfg', acts) \<Rightarrow>
          (case menu_loop json_loads io web cfg' rest of
             (e, cfg'', acts') \<Rightarrow> (e, cfg'', acts @ acts')))"

text \<open>The variables of \<open>interactive_menu\<close> before the loop. \<open>empty_dict\<close> is the empty
  dictionary of \<open>DEFAULT_HEADERS\<close> and \<open>DEFAULT_COOKIES\<close>.\<close>

definition initial_config :: "'j \<Rightarrow> 'j config" where
  "initial_config empty_dict =
     \<lparr> cfg_base_url = None,
       cfg_wordlist = DEFAULT_WORDLIST,
       cfg_output_file = DEFAULT_OUTPUT,
       cfg_headers = empty_dict,
       cfg_cookies = empty_dict,
       cfg_methods = DEFAULT_METHODS,
       cfg_valid_status_codes = VALID_STATUS_CODES \<rparr>"

text \<open>\<open>interactive_menu\<close>\<close>

definition interactive_menu ::
  "(string \<Rightarrow> 'j option) \<Rightarrow> (string \<Rightarrow> io_outcome) \<Rightarrow> (string \<Rightarrow> get_outcome) \<Rightarrow> 'j
     \<Rightarrow> (string \<times> answers) list \<Rightarrow> menu_end \<times> 'j config \<times> 'j action list" where
  "interactive_menu json_loads io web empty_dict inputs =
     menu_loop json_loads io web (initial_config empty_dict) inputs"

text \<open>Answers that leave every setting as it is.\<close>

definition blank_answers :: answers where
  "blank_answers =
     \<lparr> ans_base_url = [], ans_wordlist = [], ans_output_file = [], ans_headers = [],
       ans_cookies = [], ans_methods = [], ans_status_codes = [] \<rparr>"

text \<open>An operator's session for the examples: the target is set, a probing run is
  started, then the download. \<open>serving_web\<close> answers every GET with an HTML page, and
  \<open>no_json\<close> is a \<open>json.loads\<close> that accepts nothing.\<close>

definition operator_session :: "(string \<times> answers) list" where
  "operator_session =
     [(''2'', blank_answers\<lparr>ans_base_url := ''http://example.test/''\<rparr>),
      (''1'', blank_answers),
      (''4'', blank_answers)]"

definition serving_web :: "string \<Rightarrow> get_outcome" where
  "serving_web url = GetResponse 200 (Some ''text/html'') (Some ''<html></html>'')"

definition no_json :: "string \<Rightarrow> unit option" where
  "no_json s = None"

text \<open>Malformed answers to option 2: headers or cookies that are given and that
  \<open>json.loads\<close> rejects, or status codes that are given and of which some piece between
  the commas is not an integer.\<close>

definition malformed :: "(string \<Rightarrow> 'j option) \<Rightarrow> answers \<Rightarrow> bool" where
  "malformed json_loads a =
     ((strip isspace (ans_headers a) \<noteq> [] \<and> json_loads (strip isspace (ans_headers a)) = None)
      \<or> (strip isspace (ans_cookies a) \<noteq> [] \<and> json_loads (strip isspace (ans_cookies a)) = None)
      \<or> (strip isspace (ans_status_codes a) \<noteq> []
          \<and> list_ex (\<lambda>piece. py_int piece = None)
                (split_comma (strip isspace (ans_status_codes a)))))"

text \<open>A second session: the target is set, then set again together with status codes that
  are not integers, then the configuration is asked for.\<close>

definition malformed_session :: "(string \<times> answers) list" where
  "malformed_session =
     [(''2'', blank_answers\<lparr>ans_base_url := ''http://a.test''\<rparr>),
      (''2'', blank_answers\<lparr>ans_base_url := ''http://b.test'', ans_status_codes := ''abc''\<rparr>),
      (''3'', blank_answers)]"

text \<open>What holds of the two counters while the probes run.\<close>

definition count_inv :: "'j run_state \<Rightarrow> bool" where
  "count_inv s =
     (completed_tasks (drl s) = n_completed s \<and>
      total_tasks (drl s) = length (tasks s) \<and>
      raised s = None)"

text \<open>A driller as \<open>start\<close> has it when probing begins, for the examples below: target
  \<open>http://example.test\<close>, method \<open>HEAD\<close>, acceptance set \<open>{200}\<close>.\<close>

definition start_probe_example :: "unit driller" where
  "start_probe_example =
     (FuzzDriller_init ''http://example.test'' ''Wordlist/pro_100.txt'' ''endpoints.txt'' () ()
        [''HEAD''] [200])\<lparr>session := True\<rparr>"

text \<open>Answers of the server for the examples: the first probe is answered 200, the second
  404, and every later request fails in transport.\<close>

definition scenario_resp :: "nat \<Rightarrow> outcome" where
  "scenario_resp i = (if i = 0 then Status 200 else if i = 1 then Status 404 else Raised)"

text \<open>The driller of the examples with two endpoints discovered.\<close>

definition found_two_example :: "unit driller" where
  "found_two_example =
     start_probe_example\<lparr>found_endpoints := {|''http://example.test/b'', ''http://example.test/a''|}\<rparr>"

subsection \<open>Joining target and path as the specification words it\<close>

text \<open>The specification's wording: exactly one trailing slash is taken from the target and
  exactly one leading slash from the path, and the two are joined with one slash.\<close>

definition strip_one_trailing_slash :: "string \<Rightarrow> string" where
  "strip_one_trailing_slash s = (if s \<noteq> [] \<and> last s = CHR ''/'' then butlast s else s)"

definition strip_one_leading_slash :: "string \<Rightarrow> string" where
  "strip_one_leading_slash s = (case s of [] \<Rightarrow> [] | c # cs \<Rightarrow> if c = CHR ''/'' then cs else s)"

definition spec_join_url :: "string \<Rightarrow> string \<Rightarrow> string" where
  "spec_join_url target path = strip_one_trailing_slash target @ ''/'' @ strip_one_leading_slash path"

subsection \<open>The artifact file name as the specification words it\<close>

text \<open>The specification's wording: the target prefix is removed from the URL, and every
  character outside \<open>[A-Za-z0-9_-]\<close> becomes an underscore.\<close>

definition in_spec_class :: "char \<Rightarrow> bool" where
  "in_spec_class c =
     (let n = (of_char c :: nat) in
        (48 \<le> n \<and> n \<le> 57) \<or> (65 \<le> n \<and> n \<le> 90) \<or> (97 \<le> n \<and> n \<le> 122)
        \<or> n = 95 \<or> n = 45)"

definition spec_sanitize_filename :: "string \<Rightarrow> string \<Rightarrow> string" where
  "spec_sanitize_filename target url =
     map (\<lambda>c. if in_spec_class c then c else CHR ''_'')
         (if prefix target url then drop (length target) url else url)"

section \<open>Request URLs\<close>

lemma lstrip_decomp:
  "\<exists>n. s = replicate n c @ lstrip (\<lambda>x. x = c) s \<and> (lstrip (\<lambda>x. x = c) s = [] \<or> hd (lstrip (\<lambda>x. x = c) s) \<noteq> c)"
proof (induction s)
  case Nil
  show ?case by (simp add: lstrip_def)
next
  case (Cons a s)
  show ?case
  proof (cases "a = c")
    case True
    from Cons obtain n where n: "s = replicate n c @ lstrip (\<lambda>x. x = c) s"
      and h: "lstrip (\<lambda>x. x = c) s = [] \<or> hd (lstrip (\<lambda>x. x = c) s) \<noteq> c"
      by blast
    have "a # s = replicate (Suc n) c @ lstrip (\<lambda>x. x = c) (a # s)"
      using True n by (simp add: lstrip_def)
    moreover have "lstrip (\<lambda>x. x = c) (a # s) = lstrip (\<lambda>x. x = c) s"
      using True by (simp add: lstrip_def)
    ultimately show ?thesis using h by metis
  next
    case False
    then have "a # s = replicate 0 c @ lstrip (\<lambda>x. x = c) (a # s)"
      by (simp add: lstrip_def)
    moreover have "hd (lstrip (\<lambda>x. x = c) (a # s)) \<noteq> c"
      using False by (simp add: lstrip_def)
    ultimately show ?thesis by blast
  qed
qed

lemma rstrip_decomp:
  "\<exists>n. s = rstrip (\<lambda>x. x = c) s @ replicate n c \<and> (rstrip (\<lambda>x. x = c) s = [] \<or> last (rstrip (\<lambda>x. x = c) s) \<noteq> c)"
proof -
  obtain n where n: "rev s = replicate n c @ lstrip (\<lambda>x. x = c) (rev s)"
    and h: "lstrip (\<lambda>x. x = c) (rev s) = [] \<or> hd (lstrip (\<lambda>x. x = c) (rev s)) \<noteq> c"
    using lstrip_decomp [of "rev s" c] by blast
  have r: "rstrip (\<lambda>x. x = c) s = rev (lstrip (\<lambda>x. x = c) (rev s))"
    by (simp add: rstrip_def lstrip_def)
  have "rev (rev s) = rev (replicate n c @ lstrip (\<lambda>x. x = c) (rev s))"
    using n by simp
  then have "s = rstrip (\<lambda>x. x = c) s @ replicate n c"
    using r by simp
  moreover have "rstrip (\<lambda>x. x = c) s = [] \<or> last (rstrip (\<lambda>x. x = c) s) \<noteq> c"
    using h r by (auto simp: last_rev)
  ultimately show ?thesis by blast
qed

lemma is_slash_eq: "is_slash = (\<lambda>x. x = CHR ''/'')"
  by (rule ext) (simp add: is_slash_def)

text \<open>
  Claim C4, as the code has it. The request URL of a probe is \<open>t @ ''/'' @ p\<close>, where \<open>t\<close>
  is the target given to the constructor without ALL of its trailing slashes and \<open>p\<close> is
  the candidate path without ALL of its leading slashes: \<open>t\<close> does not end in a slash,
  \<open>p\<close> does not begin with one, and only slashes were removed.
\<close>

theorem fetch_url_strips_all_slashes:
  "\<exists>t p m n.
     target = t @ replicate m CHR ''/'' \<and> (t = [] \<or> last t \<noteq> CHR ''/'') \<and>
     path = replicate n CHR ''/'' @ p \<and> (p = [] \<or> hd p \<noteq> CHR ''/'') \<and>
     fetch_url (FuzzDriller_init target w out h c ms vs) path = t @ ''/'' @ p"
proof -
  obtain m where m: "target = rstrip is_slash target @ replicate m CHR ''/''"
    and t: "rstrip is_slash target = [] \<or> last (rstrip is_slash target) \<noteq> CHR ''/''"
    using rstrip_decomp [of target "CHR ''/''"] unfolding is_slash_eq by blast
  obtain n where n: "path = replicate n CHR ''/'' @ lstrip is_slash path"
    and p: "lstrip is_slash path = [] \<or> hd (lstrip is_slash path) \<noteq> CHR ''/''"
    using lstrip_decomp [of path "CHR ''/''"] unfolding is_slash_eq by blast
  have "fetch_url (FuzzDriller_init target w out h c ms vs) path
          = rstrip is_slash target @ ''/'' @ lstrip is_slash path"
    by (simp add: fetch_url_def FuzzDriller_init_def)
  with m t n p show ?thesis by blast
qed

theorem fetch_url_strips_all_slashes_witness:
  "\<exists>t p m n.
     ''http://t//'' = t @ replicate m CHR ''/'' \<and> (t = [] \<or> last t \<noteq> CHR ''/'') \<and>
     ''//x'' = replicate n CHR ''/'' @ p \<and> (p = [] \<or> hd p \<noteq> CHR ''/'') \<and>
     fetch_url (FuzzDriller_init ''http://t//'' ''w.txt'' ''out.txt'' () () [''HEAD''] [200]) ''//x''
       = t @ ''/'' @ p"
  by (rule fetch_url_strips_all_slashes)

text \<open>
  Claim C4 as stated fails: for the target \<open>http://t//\<close> and the path \<open>//x\<close> the code requests
  \<open>http://t/x\<close>, while stripping exactly one slash on each side would give \<open>http://t///x\<close>.
\<close>

theorem fetch_url_one_slash_counterexample:
  "fetch_url (FuzzDriller_init ''http://t//'' ''w.txt'' ''out.txt'' () () [''HEAD''] [200]) ''//x''
     = ''http://t/x'' \<and>
   spec_join_url ''http://t//'' ''//x'' = ''http://t///x'' \<and>
   fetch_url (FuzzDriller_init ''http://t//'' ''w.txt'' ''out.txt'' () () [''HEAD''] [200]) ''//x''
     \<noteq> spec_join_url ''http://t//'' ''//x''"
  by (simp add: fetch_url_def FuzzDriller_init_def spec_join_url_def rstrip_def lstrip_def
      is_slash_def strip_one_trailing_slash_def strip_one_leading_slash_def)

section \<open>A single probe\<close>

lemma fetch_completed: "completed_tasks (fst (fetch d p m r)) = completed_tasks d + 1"
  by (simp add: fetch_def Let_def split: outcome.split sum.split)

lemma fetch_total: "total_tasks (fst (fetch d p m r)) = total_tasks d"
  by (simp add: fetch_def Let_def split: outcome.split sum.split)

lemma fetch_no_raise: "0 < total_tasks d \<Longrightarrow> \<exists>v. snd (snd (fetch d p m r)) = Inr v"
  by (simp add: fetch_def Let_def print_progress_bar_def split: outcome.split sum.split)

text \<open>
  Claim C2. A probe whose request is answered with status \<open>st\<close> adds its URL to
  \<open>found_endpoints\<close> if and only if \<open>st\<close> is a member of \<open>valid_status_codes\<close>, and changes the
  set in no other way; a probe whose request raises leaves the set as it was.
\<close>

theorem fetch_adds_iff_valid_status:
  assumes "session d"
  shows "found_endpoints (fst (fetch d path method (Status st)))
           = (if st \<in> set (valid_status_codes d)
              then finsert (fetch_url d path) (found_endpoints d)
              else found_endpoints d)
         \<and> found_endpoints (fst (fetch d path method Raised)) = found_endpoints d"
  using assms
  by (simp add: fetch_def Let_def session_request_def split: sum.split)

theorem fetch_adds_iff_valid_status_witness:
  "found_endpoints (fst (fetch (start_probe_example) ''/a'' ''HEAD'' (Status 200)))
     = {|''http://example.test/a''|}
   \<and> found_endpoints (fst (fetch (start_probe_example) ''/b'' ''HEAD'' (Status 404))) = {||}
   \<and> found_endpoints (fst (fetch (start_probe_example) ''/a'' ''HEAD'' Raised)) = {||}"
proof -
  have s: "session start_probe_example"
    by (simp add: start_probe_example_def)
  have v: "valid_status_codes start_probe_example = [200]"
    and f: "found_endpoints start_probe_example = {||}"
    and a: "fetch_url start_probe_example ''/a'' = ''http://example.test/a''"
    by (simp_all add: start_probe_example_def FuzzDriller_init_def fetch_url_def rstrip_def
        lstrip_def is_slash_def)
  show ?thesis
    using fetch_adds_iff_valid_status [OF s, of "''/a''" "''HEAD''" 200]
      fetch_adds_iff_valid_status [OF s, of "''/b''" "''HEAD''" 404]
    by (simp add: v f a)
qed

section \<open>Dispatch\<close>

lemma filter_update_count:
  "i < length ts \<Longrightarrow>
   length (filter P (ts[i := v])) + (if P (ts ! i) then 1 else 0)
     = length (filter P ts) + (if P v then 1 else 0)"
proof (induction ts arbitrary: i)
  case Nil
  then show ?case by simp
next
  case (Cons t ts)
  show ?case
  proof (cases i)
    case 0
    then show ?thesis by simp
  next
    case (Suc j)
    with Cons.prems have "j < length ts" by simp
    from Cons.IH [OF this] Suc show ?thesis by simp
  qed
qed

lemma length_tasks_init:
  "length (concat (map (\<lambda>path. map (f path) ms) paths)) = length paths * length ms"
  by (induction paths) simp_all

lemma exec_Acquire:
  assumes "exec resp s (Acquire i) = Some s'"
  shows "0 < sem s" and "sem s' = sem s - 1" and "in_flight s' = Suc (in_flight s)"
    and "n_completed s' = n_completed s" and "drl s' = drl s" and "raised s' = raised s"
    and "length (tasks s') = length (tasks s)"
proof -
  from assms have i: "i < length (tasks s)" and w: "phase_of (tasks s ! i) = Waiting"
    and pos: "0 < sem s"
    and s': "s' = s\<lparr>sem := sem s - 1,
                   tasks := (tasks s)[i := (fst (tasks s ! i), fst (snd (tasks s ! i)), InFlight)]\<rparr>"
    by (auto split: if_splits)
  show "0 < sem s" by (rule pos)
  show "sem s' = sem s - 1" "drl s' = drl s" "raised s' = raised s"
    "length (tasks s') = length (tasks s)"
    by (simp_all add: s')
  show "in_flight s' = Suc (in_flight s)"
    using filter_update_count [OF i, of "\<lambda>t. phase_of t = InFlight"
        "(fst (tasks s ! i), fst (snd (tasks s ! i)), InFlight)"] w
    by (simp add: s' in_flight_def phase_of_def)
  show "n_completed s' = n_completed s"
    using filter_update_count [OF i, of "\<lambda>t. phase_of t = Completed"
        "(fst (tasks s ! i), fst (snd (tasks s ! i)), InFlight)"] w
    by (simp add: s' n_completed_def phase_of_def)
qed

lemma exec_Complete:
  assumes "exec resp s (Complete i) = Some s'"
  shows "sem s' = sem s + 1" and "Suc (in_flight s') = in_flight s"
    and "n_completed s' = Suc (n_completed s)"
    and "length (tasks s') = length (tasks s)" and "i < length (tasks s)"
    and "drl s' = fst (fetch (drl s) (fst (tasks s ! i)) (fst (snd (tasks s ! i))) (resp i))"
    and "raised s' = (case snd (snd (fetch (drl s) (fst (tasks s ! i)) (fst (snd (tasks s ! i))) (resp i)))
                      of Inl e \<Rightarrow> Some e | Inr v \<Rightarrow> None)"
proof -
  obtain d' lg r
    where f: "fetch (drl s) (fst (tasks s ! i)) (fst (snd (tasks s ! i))) (resp i) = (d', lg, r)"
    by (metis prod_cases3)
  from assms f have i: "i < length (tasks s)" and w: "phase_of (tasks s ! i) = InFlight"
    and s': "s' = s\<lparr>drl := d', sem := sem s + 1,
                   tasks := (tasks s)[i := (fst (tasks s ! i), fst (snd (tasks s ! i)), Completed)],
                   raised := (case r of Inl e \<Rightarrow> Some e | Inr v \<Rightarrow> None),
                   logged := logged s @ lg\<rparr>"
    by (auto split: if_splits)
  show "i < length (tasks s)" by (rule i)
  show "sem s' = sem s + 1" "length (tasks s') = length (tasks s)"
    by (simp_all add: s')
  show "drl s' = fst (fetch (drl s) (fst (tasks s ! i)) (fst (snd (tasks s ! i))) (resp i))"
    by (simp add: s' f)
  show "raised s' = (case snd (snd (fetch (drl s) (fst (tasks s ! i)) (fst (snd (tasks s ! i))) (resp i)))
                      of Inl e \<Rightarrow> Some e | Inr v \<Rightarrow> None)"
    by (simp add: s' f)
  show "Suc (in_flight s') = in_flight s"
    using filter_update_count [OF i, of "\<lambda>t. phase_of t = InFlight"
        "(fst (tasks s ! i), fst (snd (tasks s ! i)), Completed)"] w
    by (simp add: s' in_flight_def phase_of_def)
  show "n_completed s' = Suc (n_completed s)"
    using filter_update_count [OF i, of "\<lambda>t. phase_of t = Completed"
        "(fst (tasks s ! i), fst (snd (tasks s ! i)), Completed)"] w
    by (simp add: s' n_completed_def phase_of_def)
qed

lemma run_length_tasks:
  "run resp s es = Some s' \<Longrightarrow> length (tasks s') = length (tasks s)"
proof (induction es arbitrary: s)
  case Nil
  then show ?case by simp
next
  case (Cons e es)
  from Cons.prems obtain s1 where e: "exec resp s e = Some s1" and r: "run resp s1 es = Some s'"
    by (auto split: option.splits)
  have "length (tasks s1) = length (tasks s)"
  proof (cases e)
    case (Acquire i)
    with e have "exec resp s (Acquire i) = Some s1" by simp
    then show ?thesis by (rule exec_Acquire(7))
  next
    case (Complete i)
    with e have "exec resp s (Complete i) = Some s1" by simp
    then show ?thesis by (rule exec_Complete(4))
  qed
  with Cons.IH [OF r] show ?case by simp
qed

lemma sem_inv_run:
  "run resp s es = Some s' \<Longrightarrow> sem s' + in_flight s' = sem s + in_flight s"
proof (induction es arbitrary: s)
  case Nil
  then show ?case by simp
next
  case (Cons e es)
  from Cons.prems obtain s1 where e: "exec resp s e = Some s1" and r: "run resp s1 es = Some s'"
    by (auto split: option.splits)
  have "sem s1 + in_flight s1 = sem s + in_flight s"
  proof (cases e)
    case (Acquire i)
    with e have a: "exec resp s (Acquire i) = Some s1" by simp
    show ?thesis using exec_Acquire(1,2,3) [OF a] by simp
  next
    case (Complete i)
    with e have a: "exec resp s (Complete i) = Some s1" by simp
    show ?thesis using exec_Complete(1,2) [OF a] by simp
  qed
  with Cons.IH [OF r] show ?case by simp
qed

lemma in_flight_init: "in_flight (process_paths_init d paths) = 0"
  by (simp add: process_paths_init_def in_flight_def phase_of_def filter_concat o_def)

lemma count_inv_init:
  "count_inv (start_dispatch (FuzzDriller_init b w out h c ms vs) paths)"
  by (simp add: count_inv_def start_dispatch_def process_paths_init_def FuzzDriller_init_def
      n_completed_def length_tasks_init phase_of_def filter_concat o_def)

lemma count_inv_exec:
  assumes "count_inv s" and "exec resp s e = Some s'"
  shows "count_inv s'"
proof (cases e)
  case (Acquire i)
  with assms(2) have e: "exec resp s (Acquire i) = Some s'" by simp
  show ?thesis
    using assms(1) exec_Acquire(4,5,6,7) [OF e] by (simp add: count_inv_def)
next
  case (Complete i)
  with assms(2) have e: "exec resp s (Complete i) = Some s'" by simp
  let ?f = "fetch (drl s) (fst (tasks s ! i)) (fst (snd (tasks s ! i))) (resp i)"
  have "0 < total_tasks (drl s)"
    using assms(1) exec_Complete(5) [OF e] by (auto simp: count_inv_def)
  from fetch_no_raise [OF this] obtain v where "snd (snd ?f) = Inr v" by blast
  then have "raised s' = None" using exec_Complete(7) [OF e] by simp
  moreover have "completed_tasks (drl s') = Suc (completed_tasks (drl s))"
    using exec_Complete(6) [OF e] by (simp add: fetch_completed)
  moreover have "total_tasks (drl s') = total_tasks (drl s)"
    using exec_Complete(6) [OF e] by (simp add: fetch_total)
  ultimately show ?thesis
    using assms(1) exec_Complete(3,4) [OF e] by (simp add: count_inv_def)
qed

lemma count_inv_run:
  "count_inv s \<Longrightarrow> run resp s es = Some s' \<Longrightarrow> count_inv s'"
proof (induction es arbitrary: s)
  case Nil
  then show ?case by simp
next
  case (Cons e es)
  then show ?case
    by (auto split: option.splits dest: count_inv_exec)
qed

lemma gather_done_all_completed: "gather_done s \<Longrightarrow> n_completed s = length (tasks s)"
  by (simp add: gather_done_def n_completed_def list_all_iff)

lemma exec_waiting:
  assumes "exec resp s e = Some s'"
  shows "length (filter (\<lambda>t. phase_of t = Waiting) (tasks s'))
           + (case e of Acquire i \<Rightarrow> 1 | Complete i \<Rightarrow> 0)
         = length (filter (\<lambda>t. phase_of t = Waiting) (tasks s))"
proof (cases e)
  case (Acquire i)
  with assms have i: "i < length (tasks s)" and w: "phase_of (tasks s ! i) = Waiting"
    and s': "tasks s' = (tasks s)[i := (fst (tasks s ! i), fst (snd (tasks s ! i)), InFlight)]"
    by (auto split: if_splits)
  show ?thesis
    using filter_update_count [OF i, of "\<lambda>t. phase_of t = Waiting"
        "(fst (tasks s ! i), fst (snd (tasks s ! i)), InFlight)"] w
    by (simp add: s' Acquire phase_of_def)
next
  case (Complete i)
  with assms have i: "i < length (tasks s)" and w: "phase_of (tasks s ! i) = InFlight"
    and s': "tasks s' = (tasks s)[i := (fst (tasks s ! i), fst (snd (tasks s ! i)), Completed)]"
    by (auto split: if_splits prod.splits)
  show ?thesis
    using filter_update_count [OF i, of "\<lambda>t. phase_of t = Waiting"
        "(fst (tasks s ! i), fst (snd (tasks s ! i)), Completed)"] w
    by (simp add: s' Complete phase_of_def)
qed

lemma exec_enabled:
  assumes "raised s = None" and "i < length (tasks s)"
  shows "phase_of (tasks s ! i) = InFlight \<Longrightarrow> \<exists>s'. exec resp s (Complete i) = Some s'"
    and "phase_of (tasks s ! i) = Waiting \<Longrightarrow> 0 < sem s \<Longrightarrow> \<exists>s'. exec resp s (Acquire i) = Some s'"
  using assms by (simp_all split: prod.splits)

lemma filter_pos_index: "0 < length (filter P xs) \<Longrightarrow> \<exists>i<length xs. P (xs ! i)"
proof -
  assume "0 < length (filter P xs)"
  then have "filter P xs \<noteq> []" by simp
  then obtain x where "x \<in> set xs" "P x" by (auto simp: filter_empty_conv)
  then show ?thesis by (auto simp: in_set_conv_nth)
qed

lemma barrier_reachable:
  assumes "count_inv s" and "sem s + in_flight s = MAX_CONCURRENT_REQUESTS"
  shows "\<exists>es s'. run resp s es = Some s' \<and> gather_done s'"
  using assms
proof (induction "2 * length (filter (\<lambda>t. phase_of t = Waiting) (tasks s)) + in_flight s"
    arbitrary: s rule: less_induct)
  case less
  from less.prems(1) have r: "raised s = None" by (simp add: count_inv_def)
  show ?case
  proof (cases "gather_done s")
    case True
    then have "run resp s [] = Some s \<and> gather_done s" by simp
    then show ?thesis by blast
  next
    case False
    have step: "\<exists>es s'. run resp s es = Some s' \<and> gather_done s'"
      if e: "exec resp s e = Some s1"
        and m: "2 * length (filter (\<lambda>t. phase_of t = Waiting) (tasks s1)) + in_flight s1
                 < 2 * length (filter (\<lambda>t. phase_of t = Waiting) (tasks s)) + in_flight s"
        and g: "sem s1 + in_flight s1 = MAX_CONCURRENT_REQUESTS" for e s1
    proof -
      have "count_inv s1" using less.prems(1) e by (rule count_inv_exec)
      from less.hyps [OF m this g] obtain es s'
        where "run resp s1 es = Some s'" "gather_done s'" by blast
      with e have "run resp s (e # es) = Some s' \<and> gather_done s'" by simp
      then show ?thesis by blast
    qed
    show ?thesis
    proof (cases "0 < in_flight s")
      case True
      then have "0 < length (filter (\<lambda>t. phase_of t = InFlight) (tasks s))"
        by (simp only: in_flight_def)
      from filter_pos_index [OF this]
      obtain i where i: "i < length (tasks s)" "phase_of (tasks s ! i) = InFlight"
        by blast
      from exec_enabled(1) [OF r i] obtain s1 where e: "exec resp s (Complete i) = Some s1"
        by blast
      show ?thesis
      proof (rule step [OF e])
        show "2 * length (filter (\<lambda>t. phase_of t = Waiting) (tasks s1)) + in_flight s1
                 < 2 * length (filter (\<lambda>t. phase_of t = Waiting) (tasks s)) + in_flight s"
          using exec_waiting [OF e] exec_Complete(2) [OF e] by simp
        show "sem s1 + in_flight s1 = MAX_CONCURRENT_REQUESTS"
          using exec_Complete(1,2) [OF e] less.prems(2) by simp
      qed
    next
      case nf: False
      from False r have "\<not> list_all (\<lambda>t. phase_of t = Completed) (tasks s)"
        by (simp add: gather_done_def)
      then obtain i where i: "i < length (tasks s)" "phase_of (tasks s ! i) \<noteq> Completed"
        by (auto simp: list_all_length)
      have "phase_of (tasks s ! i) \<noteq> InFlight"
      proof
        assume "phase_of (tasks s ! i) = InFlight"
        with i(1) have "tasks s ! i \<in> set (filter (\<lambda>t. phase_of t = InFlight) (tasks s))"
          by simp
        then have "0 < in_flight s" unfolding in_flight_def by (rule length_pos_if_in_set)
        with nf show False by simp
      qed
      with i(2) have w: "phase_of (tasks s ! i) = Waiting"
        by (cases "phase_of (tasks s ! i)") simp_all
      have "0 < sem s" using nf less.prems(2) by (simp add: MAX_CONCURRENT_REQUESTS_def)
      from exec_enabled(2) [OF r i(1) w this] obtain s1
        where e: "exec resp s (Acquire i) = Some s1" by blast
      show ?thesis
      proof (rule step [OF e])
        show "2 * length (filter (\<lambda>t. phase_of t = Waiting) (tasks s1)) + in_flight s1
                 < 2 * length (filter (\<lambda>t. phase_of t = Waiting) (tasks s)) + in_flight s"
          using exec_waiting [OF e] exec_Acquire(3) [OF e] by simp
        show "sem s1 + in_flight s1 = MAX_CONCURRENT_REQUESTS"
          using exec_Acquire(1,2,3) [OF e] less.prems(2) by simp
      qed
    qed
  qed
qed

text \<open>
  Claim C1. Take any run of the probing phase of a freshly constructed driller: any paths,
  methods and acceptance set, any answers of the server (statuses or raised exceptions) and
  any interleaving of the tasks. \<open>total_tasks\<close> is \<open>|paths| * |methods|\<close> before the first
  probe and stays so; \<open>completed_tasks\<close> always equals the number of finished probes (each
  probe adds exactly one, whatever its outcome); no exception reaches \<open>gather\<close>; and when
  \<open>gather\<close> returns, \<open>completed_tasks\<close> equals \<open>total_tasks\<close>. From every state of the run
  there is a way on to the return of \<open>gather\<close>, once the pending requests are answered.
\<close>

theorem completed_equals_total:
  assumes "run resp (start_dispatch (FuzzDriller_init b w out h c ms vs) paths) es = Some s"
  shows "total_tasks (drl (start_dispatch (FuzzDriller_init b w out h c ms vs) paths))
           = length paths * length ms
         \<and> total_tasks (drl s) = length paths * length ms
         \<and> completed_tasks (drl s) = n_completed s
         \<and> raised s = None
         \<and> (gather_done s \<longrightarrow> completed_tasks (drl s) = total_tasks (drl s))
         \<and> (\<exists>es' s'. run resp s es' = Some s' \<and> gather_done s')"
proof -
  let ?s0 = "start_dispatch (FuzzDriller_init b w out h c ms vs) paths"
  have t0: "total_tasks (drl ?s0) = length paths * length ms"
    by (simp add: start_dispatch_def process_paths_init_def FuzzDriller_init_def)
  have l0: "length (tasks ?s0) = length paths * length ms"
    by (simp add: start_dispatch_def process_paths_init_def FuzzDriller_init_def length_tasks_init)
  have inv: "count_inv s"
    using count_inv_run [OF count_inv_init assms] .
  have len: "length (tasks s) = length paths * length ms"
    using run_length_tasks [OF assms] l0 by simp
  from inv len have "total_tasks (drl s) = length paths * length ms"
    by (simp add: count_inv_def)
  moreover from inv have "completed_tasks (drl s) = n_completed s" "raised s = None"
    by (simp_all add: count_inv_def)
  moreover have "gather_done s \<longrightarrow> completed_tasks (drl s) = total_tasks (drl s)"
    using inv gather_done_all_completed [of s] by (simp add: count_inv_def)
  moreover have "\<exists>es' s'. run resp s es' = Some s' \<and> gather_done s'"
  proof -
    have "sem ?s0 = MAX_CONCURRENT_REQUESTS" "in_flight ?s0 = 0"
      by (simp_all add: start_dispatch_def in_flight_init) (simp add: process_paths_init_def)
    then have "sem s + in_flight s = MAX_CONCURRENT_REQUESTS"
      using sem_inv_run [OF assms] by simp
    with inv show ?thesis by (rule barrier_reachable)
  qed
  ultimately show ?thesis using t0 by blast
qed

theorem completed_equals_total_witness:
  "\<exists>s. run scenario_resp
          (start_dispatch
             (FuzzDriller_init ''http://example.test'' ''Wordlist/pro_100.txt'' ''endpoints.txt'' () ()
                [''HEAD''] [200])
             [''a'', ''b'', ''c''])
          [Acquire 0, Acquire 2, Acquire 1, Complete 2, Complete 0, Complete 1] = Some s
       \<and> gather_done s
       \<and> completed_tasks (drl s) = total_tasks (drl s)
       \<and> total_tasks (drl s) = 3 * 1"
proof -
  let ?d = "FuzzDriller_init ''http://example.test'' ''Wordlist/pro_100.txt'' ''endpoints.txt'' () ()
              [''HEAD''] [200] :: unit driller"
  let ?es = "[Acquire 0, Acquire 2, Acquire 1, Complete 2, Complete 0, Complete 1]"
  have "\<exists>s. run scenario_resp (start_dispatch ?d [''a'', ''b'', ''c'']) ?es = Some s \<and> gather_done s"
    by (simp add: start_dispatch_def process_paths_init_def FuzzDriller_init_def phase_of_def
        MAX_CONCURRENT_REQUESTS_def fetch_def Let_def fetch_url_def rstrip_def lstrip_def
        is_slash_def session_request_def print_progress_bar_def scenario_resp_def gather_done_def)
  then obtain s where r: "run scenario_resp (start_dispatch ?d [''a'', ''b'', ''c'']) ?es = Some s"
    and g: "gather_done s"
    by blast
  note t = completed_equals_total [OF r]
  from t g have c: "completed_tasks (drl s) = total_tasks (drl s)" by blast
  from t have "total_tasks (drl s) = length [''a'', ''b'', ''c''] * length [''HEAD'']" by blast
  then have "total_tasks (drl s) = 3 * 1" by simp
  with r g c show ?thesis by blast
qed

section \<open>The admission gate\<close>

lemma acquire_blocked: "sem s = 0 \<Longrightarrow> exec resp s (Acquire i) = None"
  by simp

lemma run_append:
  "run resp s (es @ es') = (case run resp s es of None \<Rightarrow> None | Some s' \<Rightarrow> run resp s' es')"
  by (induction es arbitrary: s) (simp_all split: option.splits)

lemma acquire_first:
  assumes "k \<le> length (tasks (process_paths_init d paths))" and "k \<le> MAX_CONCURRENT_REQUESTS"
  shows "\<exists>s. run resp (process_paths_init d paths) (map Acquire [0..<k]) = Some s
             \<and> in_flight s = k \<and> sem s + k = MAX_CONCURRENT_REQUESTS \<and> raised s = None
             \<and> length (tasks s) = length (tasks (process_paths_init d paths))
             \<and> (\<forall>j < length (tasks s).
                   phase_of (tasks s ! j) = (if j < k then InFlight else Waiting))"
  using assms
proof (induction k)
  case 0
  have "\<forall>t \<in> set (tasks (process_paths_init d paths)). phase_of t = Waiting"
    by (auto simp add: process_paths_init_def phase_of_def)
  then have "\<forall>j < length (tasks (process_paths_init d paths)).
               phase_of (tasks (process_paths_init d paths) ! j) = Waiting"
    by simp
  moreover have "sem (process_paths_init d paths) = MAX_CONCURRENT_REQUESTS"
    "raised (process_paths_init d paths) = None"
    by (simp_all add: process_paths_init_def)
  ultimately show ?case by (simp add: in_flight_init)
next
  case (Suc k)
  let ?s0 = "process_paths_init d paths"
  from Suc obtain s where r: "run resp ?s0 (map Acquire [0..<k]) = Some s"
    and f: "in_flight s = k" and m: "sem s + k = MAX_CONCURRENT_REQUESTS" and n: "raised s = None"
    and l: "length (tasks s) = length (tasks ?s0)"
    and p: "\<forall>j < length (tasks s). phase_of (tasks s ! j) = (if j < k then InFlight else Waiting)"
    by auto
  have k: "k < length (tasks s)" using Suc.prems(1) l by simp
  with p have w: "phase_of (tasks s ! k) = Waiting" by simp
  have pos: "0 < sem s" using m Suc.prems(2) by simp
  let ?s' = "s\<lparr>sem := sem s - 1,
               tasks := (tasks s)[k := (fst (tasks s ! k), fst (snd (tasks s ! k)), InFlight)]\<rparr>"
  have e: "exec resp s (Acquire k) = Some ?s'" using n k w pos by simp
  have "run resp ?s0 (map Acquire [0..<Suc k]) = Some ?s'"
    using r e by (simp add: run_append)
  moreover have "in_flight ?s' = Suc k" using exec_Acquire(3) [OF e] f by simp
  moreover have "sem ?s' + Suc k = MAX_CONCURRENT_REQUESTS" using m pos by simp
  moreover have "raised ?s' = None" using n by simp
  moreover have "length (tasks ?s') = length (tasks ?s0)" using l by simp
  moreover have "\<forall>j < length (tasks ?s').
                   phase_of (tasks ?s' ! j) = (if j < Suc k then InFlight else Waiting)"
    using p by (auto simp add: nth_list_update phase_of_def less_Suc_eq)
  ultimately show ?case by blast
qed

text \<open>
  Claim C9. In every state that a run of \<open>_process_paths\<close> can reach, at most
  \<open>MAX_CONCURRENT_REQUESTS = 100\<close> requests are in flight, and the free slots and the
  requests in flight add up to 100. A task enters only by taking a free slot; with 100
  requests in flight no task can enter; and a finishing task gives its slot back whatever
  the answer to its request was.
\<close>

theorem in_flight_bounded:
  assumes "run resp (process_paths_init d paths) es = Some s"
  shows "in_flight s \<le> MAX_CONCURRENT_REQUESTS \<and> MAX_CONCURRENT_REQUESTS = 100
         \<and> sem s + in_flight s = MAX_CONCURRENT_REQUESTS
         \<and> (\<forall>i s'. exec resp s (Acquire i) = Some s' \<longrightarrow>
                0 < sem s \<and> sem s' + 1 = sem s \<and> in_flight s' = in_flight s + 1
                \<and> in_flight s' \<le> MAX_CONCURRENT_REQUESTS)
         \<and> (\<forall>i. in_flight s = MAX_CONCURRENT_REQUESTS \<longrightarrow> exec resp s (Acquire i) = None)
         \<and> (\<forall>i s'. exec resp s (Complete i) = Some s' \<longrightarrow>
                sem s' = sem s + 1 \<and> in_flight s' + 1 = in_flight s)"
proof -
  have "sem (process_paths_init d paths) = MAX_CONCURRENT_REQUESTS"
    by (simp add: process_paths_init_def)
  then have inv: "sem s + in_flight s = MAX_CONCURRENT_REQUESTS"
    using sem_inv_run [OF assms] in_flight_init [of d paths] by simp
  have a: "0 < sem s \<and> sem s' + 1 = sem s \<and> in_flight s' = in_flight s + 1
           \<and> in_flight s' \<le> MAX_CONCURRENT_REQUESTS"
    if "exec resp s (Acquire i) = Some s'" for i s'
    using exec_Acquire(1,2,3) [OF that] inv by simp
  have b: "exec resp s (Acquire i) = None" if "in_flight s = MAX_CONCURRENT_REQUESTS" for i
    using that inv by (intro acquire_blocked) simp
  have c: "sem s' = sem s + 1 \<and> in_flight s' + 1 = in_flight s"
    if "exec resp s (Complete i) = Some s'" for i s'
    using exec_Complete(1,2) [OF that] by simp
  have le: "in_flight s \<le> MAX_CONCURRENT_REQUESTS" using inv by simp
  have m: "MAX_CONCURRENT_REQUESTS = 100" by (simp add: MAX_CONCURRENT_REQUESTS_def)
  from le m inv a b c show ?thesis by blast
qed


theorem in_flight_bounded_witness:
  "(\<exists>s. run scenario_resp (process_paths_init start_probe_example (replicate 101 ''p''))
          (map Acquire [0..<100]) = Some s
       \<and> in_flight s = 100 \<and> in_flight s \<le> MAX_CONCURRENT_REQUESTS
       \<and> exec scenario_resp s (Acquire 100) = None
       \<and> (\<exists>s'. exec scenario_resp s (Complete 0) = Some s' \<and> sem s' = sem s + 1
                \<and> in_flight s' + 1 = in_flight s))
   \<and> (\<exists>s s'. run scenario_resp (process_paths_init start_probe_example (replicate 101 ''p''))
          (map Acquire [0..<99]) = Some s
       \<and> exec scenario_resp s (Acquire 99) = Some s'
       \<and> sem s' + 1 = sem s \<and> in_flight s' = in_flight s + 1)"
proof -
  let ?s0 = "process_paths_init start_probe_example (replicate 101 ''p'')"
  have len: "length (tasks ?s0) = 101"
    by (simp add: process_paths_init_def length_tasks_init start_probe_example_def
        FuzzDriller_init_def)
  have "100 \<le> length (tasks ?s0)" "100 \<le> MAX_CONCURRENT_REQUESTS"
    by (simp_all add: len MAX_CONCURRENT_REQUESTS_def)
  from acquire_first [OF this, of scenario_resp]
  obtain s where r: "run scenario_resp ?s0 (map Acquire [0..<100]) = Some s"
    and f: "in_flight s = 100" and n: "raised s = None" and l: "length (tasks s) = 101"
    and p: "\<forall>j < length (tasks s). phase_of (tasks s ! j) = (if j < 100 then InFlight else Waiting)"
    using len by auto
  note t = in_flight_bounded [OF r]
  from t have le: "in_flight s \<le> MAX_CONCURRENT_REQUESTS" by (rule conjunct1)
  from t have "\<forall>i. in_flight s = MAX_CONCURRENT_REQUESTS \<longrightarrow> exec scenario_resp s (Acquire i) = None"
    by (elim conjE)
  then have blocked: "exec scenario_resp s (Acquire 100) = None"
    using f by (simp add: MAX_CONCURRENT_REQUESTS_def del: exec.simps)
  have "phase_of (tasks s ! 0) = InFlight" "0 < length (tasks s)" using p l by simp_all
  from exec_enabled(1) [OF n this(2,1), of scenario_resp]
  obtain s' where c: "exec scenario_resp s (Complete 0) = Some s'" by blast
  from t have "\<forall>i s'. exec scenario_resp s (Complete i) = Some s' \<longrightarrow>
                sem s' = sem s + 1 \<and> in_flight s' + 1 = in_flight s"
    by (elim conjE)
  with c have c': "sem s' = sem s + 1 \<and> in_flight s' + 1 = in_flight s" by blast
  have 1: "\<exists>s. run scenario_resp ?s0 (map Acquire [0..<100]) = Some s
       \<and> in_flight s = 100 \<and> in_flight s \<le> MAX_CONCURRENT_REQUESTS
       \<and> exec scenario_resp s (Acquire 100) = None
       \<and> (\<exists>s'. exec scenario_resp s (Complete 0) = Some s' \<and> sem s' = sem s + 1
                \<and> in_flight s' + 1 = in_flight s)"
    using r f le blocked c c' by blast
  have "99 \<le> length (tasks ?s0)" "99 \<le> MAX_CONCURRENT_REQUESTS"
    by (simp_all add: len MAX_CONCURRENT_REQUESTS_def)
  from acquire_first [OF this, of scenario_resp]
  obtain u where ru: "run scenario_resp ?s0 (map Acquire [0..<99]) = Some u"
    and su: "sem u + 99 = MAX_CONCURRENT_REQUESTS" and nu: "raised u = None"
    and lu: "length (tasks u) = 101"
    and pu: "\<forall>j < length (tasks u). phase_of (tasks u ! j) = (if j < 99 then InFlight else Waiting)"
    using len by auto
  have "99 < length (tasks u)" "phase_of (tasks u ! 99) = Waiting" "0 < sem u"
    using pu lu su by (simp_all add: MAX_CONCURRENT_REQUESTS_def)
  from exec_enabled(2) [OF nu this, of scenario_resp]
  obtain u' where a: "exec scenario_resp u (Acquire 99) = Some u'" by blast
  from in_flight_bounded [OF ru]
  have "\<forall>i s'. exec scenario_resp u (Acquire i) = Some s' \<longrightarrow>
                0 < sem u \<and> sem s' + 1 = sem u \<and> in_flight s' = in_flight u + 1
                \<and> in_flight s' \<le> MAX_CONCURRENT_REQUESTS"
    by (elim conjE)
  with a have "sem u' + 1 = sem u \<and> in_flight u' = in_flight u + 1" by blast
  with ru a have 2: "\<exists>s s'. run scenario_resp ?s0 (map Acquire [0..<99]) = Some s
       \<and> exec scenario_resp s (Acquire 99) = Some s'
       \<and> sem s' + 1 = sem s \<and> in_flight s' = in_flight s + 1"
    by blast
  from 1 2 show ?thesis by (rule conjI)
qed

section \<open>The candidate paths\<close>

lemma COMMON_PATHS_distinct: "distinct COMMON_PATHS \<and> length COMMON_PATHS = 5"
  by (simp add: COMMON_PATHS_def)

lemma process_paths_init_total:
  "total_tasks (drl (process_paths_init d ps)) = length ps * length (methods d)"
  by (simp add: process_paths_init_def)

text \<open>
  Claim C5. For a wordlist file that can be read, the candidate paths are the lines of the
  file with their surrounding whitespace stripped, without the blank ones, together with
  the five builtin paths, each path once. When the file does not exist, or has no line
  that is not blank (in particular when it is empty), the paths are exactly the five
  builtin ones and \<open>_process_paths\<close> sets \<open>total_tasks\<close> to \<open>5 * |methods|\<close>.
\<close>

theorem load_wordlist_paths:
  "(\<exists>ps. load_wordlist (Text ls) = Inr ps
         \<and> set ps = (strip isspace ` set ls - {[]}) \<union> set COMMON_PATHS \<and> distinct ps)
   \<and> (\<exists>ps. load_wordlist Absent = Inr ps
         \<and> set ps = {''/admin'', ''/login'', ''/dashboard'', ''/user'', ''/api''}
         \<and> distinct ps \<and> length ps = 5
         \<and> total_tasks (drl (process_paths_init d ps)) = 5 * length (methods d))
   \<and> ((\<forall>line \<in> set ls. strip isspace line = []) \<longrightarrow>
        (\<exists>ps. load_wordlist (Text ls) = Inr ps
         \<and> set ps = {''/admin'', ''/login'', ''/dashboard'', ''/user'', ''/api''}
         \<and> distinct ps \<and> length ps = 5
         \<and> total_tasks (drl (process_paths_init d ps)) = 5 * length (methods d)))"
proof (intro conjI impI)
  show "\<exists>ps. load_wordlist (Text ls) = Inr ps
         \<and> set ps = (strip isspace ` set ls - {[]}) \<union> set COMMON_PATHS \<and> distinct ps"
    by (auto simp: load_wordlist_def)
next
  have r: "remdups COMMON_PATHS = COMMON_PATHS"
    using COMMON_PATHS_distinct by (simp add: distinct_remdups_id)
  have a: "load_wordlist Absent = Inr COMMON_PATHS"
    by (simp add: load_wordlist_def r)
  have s: "set COMMON_PATHS = {''/admin'', ''/login'', ''/dashboard'', ''/user'', ''/api''}"
    by (simp add: COMMON_PATHS_def)
  have t: "total_tasks (drl (process_paths_init d COMMON_PATHS)) = 5 * length (methods d)"
    using COMMON_PATHS_distinct by (simp add: process_paths_init_total)
  show "\<exists>ps. load_wordlist Absent = Inr ps
         \<and> set ps = {''/admin'', ''/login'', ''/dashboard'', ''/user'', ''/api''}
         \<and> distinct ps \<and> length ps = 5
         \<and> total_tasks (drl (process_paths_init d ps)) = 5 * length (methods d)"
    using a s t COMMON_PATHS_distinct by blast
  assume b: "\<forall>line \<in> set ls. strip isspace line = []"
  then have "filter (\<lambda>line. strip isspace line \<noteq> []) ls = []"
    by (simp add: filter_empty_conv)
  then have "load_wordlist (Text ls) = Inr COMMON_PATHS"
    by (simp add: load_wordlist_def r)
  then show "\<exists>ps. load_wordlist (Text ls) = Inr ps
         \<and> set ps = {''/admin'', ''/login'', ''/dashboard'', ''/user'', ''/api''}
         \<and> distinct ps \<and> length ps = 5
         \<and> total_tasks (drl (process_paths_init d ps)) = 5 * length (methods d)"
    using s t COMMON_PATHS_distinct by blast
qed



theorem load_wordlist_paths_witness:
  "(\<exists>ps. load_wordlist (Text [''  /x  '' @ [CHR 0x0A], [CHR 0x0A], ''/x'' @ [CHR 0x0A], ''/api'' @ [CHR 0x0A]]) = Inr ps
       \<and> set ps = {''/x'', ''/admin'', ''/login'', ''/dashboard'', ''/user'', ''/api''}
       \<and> length ps = 6)
   \<and> (\<exists>ps. load_wordlist (Text [[CHR 0x0A], ''  '' @ [CHR 0x0A]]) = Inr ps \<and> length ps = 5
       \<and> total_tasks (drl (process_paths_init start_probe_example ps)) = 5 * 1)"
proof -
  let ?ls = "[''  /x  '' @ [CHR 0x0A], [CHR 0x0A], ''/x'' @ [CHR 0x0A], ''/api'' @ [CHR 0x0A]]"
  let ?bl = "[[CHR 0x0A], ''  '' @ [CHR 0x0A]]"
  have st: "strip isspace ` set ?ls - {[]} = {''/x'', ''/api''}"
    by (auto simp add: strip_def rstrip_def lstrip_def isspace_def)
  have un: "{''/x'', ''/api''} \<union> set COMMON_PATHS
              = {''/x'', ''/admin'', ''/login'', ''/dashboard'', ''/user'', ''/api''}"
    by (auto simp add: COMMON_PATHS_def)
  have cd: "card {''/x'', ''/admin'', ''/login'', ''/dashboard'', ''/user'', ''/api''} = 6"
    by simp
  note c1 = load_wordlist_paths [of ?ls start_probe_example, THEN conjunct1]
  then obtain ps where p: "load_wordlist (Text ?ls) = Inr ps"
    and s: "set ps = (strip isspace ` set ?ls - {[]}) \<union> set COMMON_PATHS" and d: "distinct ps"
    by (elim exE conjE)
  have s': "set ps = {''/x'', ''/admin'', ''/login'', ''/dashboard'', ''/user'', ''/api''}"
    using s un by (simp only: st)
  have "length ps = card (set ps)" using d by (simp only: distinct_card)
  then have l: "length ps = 6" by (simp only: s' cd)
  have bl: "\<forall>line \<in> set ?bl. strip isspace line = []"
    by (simp add: strip_def rstrip_def lstrip_def isspace_def)
  have m: "length (methods start_probe_example) = 1"
    by (simp add: start_probe_example_def FuzzDriller_init_def)
  note c3 = load_wordlist_paths [of ?bl start_probe_example, THEN conjunct2, THEN conjunct2, THEN mp, OF bl]
  then obtain qs where q: "load_wordlist (Text ?bl) = Inr qs" and ql: "length qs = 5"
    and qt: "total_tasks (drl (process_paths_init start_probe_example qs))
             = 5 * length (methods start_probe_example)"
    by (elim exE conjE)
  from qt have qt': "total_tasks (drl (process_paths_init start_probe_example qs)) = 5 * 1"
    by (simp only: m)
  have a: "\<exists>ps. load_wordlist (Text ?ls) = Inr ps
       \<and> set ps = {''/x'', ''/admin'', ''/login'', ''/dashboard'', ''/user'', ''/api''}
       \<and> length ps = 6"
    using p s' l by (intro exI [of _ ps] conjI)
  have b: "\<exists>ps. load_wordlist (Text ?bl) = Inr ps \<and> length ps = 5
       \<and> total_tasks (drl (process_paths_init start_probe_example ps)) = 5 * 1"
    using q ql qt' by (intro exI [of _ qs] conjI)
  from a b show ?thesis by (rule conjI)
qed

section \<open>The download phase from the menu\<close>

lemma download_fresh:
  "download_discovered_endpoints (FuzzDriller_init b w out h c ms vs) io web
     = ([], [], [DownloadingLog, DownloadCompletedLog])"
  by (simp add: download_discovered_endpoints_def FuzzDriller_init_def sorted_list_of_fset.rep_eq
      )

lemma found_fresh: "found_endpoints (FuzzDriller_init b w out h c ms vs) = {||}"
  by (simp add: FuzzDriller_init_def)

lemma menu_step_download:
  assumes "menu_step json_loads io web cfg typed = (e, cfg', acts)"
    and "Downloading f urls files \<in> set acts"
  shows "found_endpoints f = {||} \<and> urls = [] \<and> files = []"
  using assms
  by (auto simp add: menu_step_def Let_def make_fuzzer_def download_fresh found_fresh
      split: if_splits option.splits prod.splits)

lemma menu_loop_download:
  "menu_loop json_loads io web cfg inputs = (e, cfg', acts) \<Longrightarrow>
   Downloading f urls files \<in> set acts \<Longrightarrow>
   found_endpoints f = {||} \<and> urls = [] \<and> files = []"
proof (induction inputs arbitrary: cfg e cfg' acts)
  case Nil
  then show ?case by simp
next
  case (Cons typed rest)
  obtain e1 c1 a1 where s: "menu_step json_loads io web cfg typed = (e1, c1, a1)"
    by (metis prod_cases3)
  show ?case
  proof (cases e1)
    case (Some x)
    with s Cons.prems(1) have "acts = a1" by simp
    with s Cons.prems(2) show ?thesis by (auto dest: menu_step_download)
  next
    case None
    obtain e2 c2 a2 where l: "menu_loop json_loads io web c1 rest = (e2, c2, a2)"
      by (metis prod_cases3)
    with s None Cons.prems(1) have "acts = a1 @ a2" by simp
    with Cons.prems(2) consider "Downloading f urls files \<in> set a1"
      | "Downloading f urls files \<in> set a2" by auto
    then show ?thesis
    proof cases
      case 1
      with s show ?thesis by (rule menu_step_download)
    next
      case 2
      with l show ?thesis by (rule Cons.IH)
    qed
  qed
qed


text \<open>
  Claim C10. The object that option 4 of the menu constructs has an empty
  \<open>found_endpoints\<close>, and \<open>download_discovered_endpoints\<close> on it creates no task and writes
  no file, whatever the server would answer and the file system would take. So in every
  session of the operator, whatever was typed before (probing runs included), each
  download started from the menu runs on an object without discovered endpoints,
  dispatches no download and produces no artifact.
\<close>

theorem menu_download_dispatches_nothing:
  "found_endpoints (make_fuzzer b cfg) = {||}
   \<and> download_discovered_endpoints (make_fuzzer b cfg) io web
       = ([], [], [DownloadingLog, DownloadCompletedLog])
   \<and> (\<forall>f urls files.
         Downloading f urls files \<in> set (snd (snd (interactive_menu json_loads io web empty_dict inputs)))
         \<longrightarrow> found_endpoints f = {||} \<and> urls = [] \<and> files = [])"
proof (intro conjI allI impI)
  show "found_endpoints (make_fuzzer b cfg) = {||}"
    by (simp add: make_fuzzer_def found_fresh)
  show "download_discovered_endpoints (make_fuzzer b cfg) io web
       = ([], [], [DownloadingLog, DownloadCompletedLog])"
    by (simp add: make_fuzzer_def download_fresh)
next
  fix f urls files
  assume a: "Downloading f urls files
               \<in> set (snd (snd (interactive_menu json_loads io web empty_dict inputs)))"
  obtain e c acts where m: "interactive_menu json_loads io web empty_dict inputs = (e, c, acts)"
    by (metis prod_cases3)
  from a m have "Downloading f urls files \<in> set acts" by simp
  with m [unfolded interactive_menu_def]
  have r: "found_endpoints f = {||} \<and> urls = [] \<and> files = []"
    by (rule menu_loop_download)
  from r show "found_endpoints f = {||}" by simp
  from r show "urls = []" by simp
  from r show "files = []" by simp
qed

lemmas menu_eval = interactive_menu_def initial_config_def menu_step_def set_configurations_def blank_answers_def
  operator_session_def Let_def strip_def rstrip_def lstrip_def isspace_def target_of_def

theorem menu_download_dispatches_nothing_witness:
  "snd (snd (interactive_menu no_json missing_dir_io serving_web () operator_session))
     = [ConfigUpdated,
        Fuzzing (make_fuzzer ''http://example.test/''
                   (fst (snd (interactive_menu no_json missing_dir_io serving_web () operator_session)))),
        Downloading (make_fuzzer ''http://example.test/''
                       (fst (snd (interactive_menu no_json missing_dir_io serving_web () operator_session)))) [] []]
   \<and> found_endpoints (make_fuzzer ''http://example.test/''
                        (fst (snd (interactive_menu no_json missing_dir_io serving_web () operator_session)))) = {||}"
proof -
  let ?r = "interactive_menu no_json missing_dir_io serving_web () operator_session"
  let ?f = "make_fuzzer ''http://example.test/'' (fst (snd ?r))"
  have 1: "snd (snd ?r) = [ConfigUpdated, Fuzzing ?f, Downloading ?f [] []]"
    by (simp add: menu_eval download_fresh make_fuzzer_def)
  then have m: "Downloading ?f [] [] \<in> set (snd (snd ?r))" by simp
  note t = menu_download_dispatches_nothing [of "''http://example.test/''" "fst (snd ?r)"
      missing_dir_io serving_web no_json "()" operator_session, THEN conjunct2, THEN conjunct2]
  from t [THEN spec, THEN spec, THEN spec, THEN mp, OF m]
  have 2: "found_endpoints ?f = {||}" by (rule conjunct1)
  from 1 2 show ?thesis by (rule conjI)
qed

section \<open>The report file\<close>

lemma file_lines_line:
  "CHR 0x0A \<notin> set u \<Longrightarrow> file_lines (u @ CHR 0x0A # rest) = u # file_lines rest"
  by (induction u) auto

lemma file_lines_concat:
  "\<forall>u \<in> set urls. CHR 0x0A \<notin> set u \<Longrightarrow>
   file_lines (concat (map (\<lambda>endpoint. endpoint @ [CHR 0x0A]) urls)) = urls"
  by (induction urls) (simp_all add: file_lines_line)

lemma sorted_list_of_fset_sorted:
  "sorted (sorted_list_of_fset S) \<and> distinct (sorted_list_of_fset S)"
  by (simp add: sorted_list_of_fset.rep_eq)

lemma save_results_empty:
  "found_endpoints d = {||} \<Longrightarrow> save_results d io fs = (fs, [NoEndpointsLog], None)"
  by (simp add: save_results_def)

lemma save_results_nonempty:
  assumes "found_endpoints d \<noteq> {||}"
  shows "io (output_file d) = IoOk \<Longrightarrow>
           save_results d io fs
             = (fs(output_file d \<mapsto> concat (map (\<lambda>url. url @ [CHR 0x0A])
                                              (sorted_list_of_fset (found_endpoints d)))),
                [SavedLog (output_file d)], None)"
    and "io (output_file d) = OpenRaises \<Longrightarrow> save_results d io fs = (fs, [], Some OSError)"
    and "io (output_file d) = WriteRaises n \<Longrightarrow>
           save_results d io fs
             = (fs(output_file d \<mapsto> take n (concat (map (\<lambda>url. url @ [CHR 0x0A])
                                                      (sorted_list_of_fset (found_endpoints d))))),
                [], Some OSError)"
  using assms by (simp_all add: save_results_def)

text \<open>
  Claim C3, as the code has it. When no endpoint was discovered, \<open>_save_results\<close> leaves
  the files as they are and logs one warning. Otherwise there is the list of the
  discovered URLs in ascending lexicographic order, each URL once, and: when the file
  system takes the output file, the file is replaced by these URLs, each followed by a
  newline (so the lines of the file are exactly these URLs when no URL contains a
  newline) and the saving is logged; when opening the output file raises, the exception
  leaves \<open>_save_results\<close>, no file is written or changed and nothing is logged; when a
  write raises, the file holds a beginning of that text and the exception leaves
  \<open>_save_results\<close>.
\<close>

theorem save_results_report:
  "(found_endpoints d = {||} \<longrightarrow>
      save_results d io fs = (fs, [NoEndpointsLog], None) \<and> level_of NoEndpointsLog = WARNING)
   \<and> (found_endpoints d \<noteq> {||} \<longrightarrow>
      (\<exists>urls. sorted urls \<and> distinct urls \<and> set urls = fset (found_endpoints d)
             \<and> ((\<forall>url \<in> set urls. CHR 0x0A \<notin> set url) \<longrightarrow>
                   file_lines (concat (map (\<lambda>url. url @ [CHR 0x0A]) urls)) = urls)
             \<and> (io (output_file d) = IoOk \<longrightarrow>
                   save_results d io fs
                     = (fs(output_file d \<mapsto> concat (map (\<lambda>url. url @ [CHR 0x0A]) urls)),
                        [SavedLog (output_file d)], None))
             \<and> (io (output_file d) = OpenRaises \<longrightarrow>
                   save_results d io fs = (fs, [], Some OSError))
             \<and> (\<forall>n. io (output_file d) = WriteRaises n \<longrightarrow>
                   save_results d io fs
                     = (fs(output_file d \<mapsto> take n (concat (map (\<lambda>url. url @ [CHR 0x0A]) urls))),
                        [], Some OSError))))"
proof (intro conjI impI)
  assume "found_endpoints d = {||}"
  then show "save_results d io fs = (fs, [NoEndpointsLog], None)" by (rule save_results_empty)
  show "level_of NoEndpointsLog = WARNING" by simp
next
  assume ne: "found_endpoints d \<noteq> {||}"
  let ?urls = "sorted_list_of_fset (found_endpoints d)"
  have "sorted ?urls" "distinct ?urls"
    using sorted_list_of_fset_sorted [of "found_endpoints d"] by simp_all
  moreover have "set ?urls = fset (found_endpoints d)" by simp
  moreover have "(\<forall>url \<in> set ?urls. CHR 0x0A \<notin> set url) \<longrightarrow>
                   file_lines (concat (map (\<lambda>url. url @ [CHR 0x0A]) ?urls)) = ?urls"
    using file_lines_concat [of ?urls] by blast
  moreover have "io (output_file d) = IoOk \<longrightarrow>
                   save_results d io fs
                     = (fs(output_file d \<mapsto> concat (map (\<lambda>url. url @ [CHR 0x0A]) ?urls)),
                        [SavedLog (output_file d)], None)"
    using save_results_nonempty(1) [OF ne] by blast
  moreover have "io (output_file d) = OpenRaises \<longrightarrow>
                   save_results d io fs = (fs, [], Some OSError)"
    using save_results_nonempty(2) [OF ne] by blast
  moreover have "\<forall>n. io (output_file d) = WriteRaises n \<longrightarrow>
                   save_results d io fs
                     = (fs(output_file d \<mapsto> take n (concat (map (\<lambda>url. url @ [CHR 0x0A]) ?urls))),
                        [], Some OSError)"
    using save_results_nonempty(3) [OF ne] by blast
  ultimately show "\<exists>urls. sorted urls \<and> distinct urls \<and> set urls = fset (found_endpoints d)
             \<and> ((\<forall>url \<in> set urls. CHR 0x0A \<notin> set url) \<longrightarrow>
                   file_lines (concat (map (\<lambda>url. url @ [CHR 0x0A]) urls)) = urls)
             \<and> (io (output_file d) = IoOk \<longrightarrow>
                   save_results d io fs
                     = (fs(output_file d \<mapsto> concat (map (\<lambda>url. url @ [CHR 0x0A]) urls)),
                        [SavedLog (output_file d)], None))
             \<and> (io (output_file d) = OpenRaises \<longrightarrow>
                   save_results d io fs = (fs, [], Some OSError))
             \<and> (\<forall>n. io (output_file d) = WriteRaises n \<longrightarrow>
                   save_results d io fs
                     = (fs(output_file d \<mapsto> take n (concat (map (\<lambda>url. url @ [CHR 0x0A]) urls))),
                        [], Some OSError))"
    by blast
qed

theorem save_results_report_witness:
  "save_results start_probe_example missing_dir_io [''endpoints.txt'' \<mapsto> ''old'']
     = ([''endpoints.txt'' \<mapsto> ''old''], [NoEndpointsLog], None)
   \<and> save_results found_two_example missing_dir_io [''endpoints.txt'' \<mapsto> ''old'']
     = ([''endpoints.txt'' \<mapsto> ''http://example.test/a'' @ [CHR 0x0A] @ ''http://example.test/b'' @ [CHR 0x0A]],
        [SavedLog ''endpoints.txt''], None)
   \<and> file_lines (''http://example.test/a'' @ [CHR 0x0A] @ ''http://example.test/b'' @ [CHR 0x0A])
       = [''http://example.test/a'', ''http://example.test/b'']
   \<and> save_results (found_two_example\<lparr>output_file := ''no_such_dir/out.txt''\<rparr>) missing_dir_io
        [''endpoints.txt'' \<mapsto> ''old'']
     = ([''endpoints.txt'' \<mapsto> ''old''], [], Some OSError)
   \<and> save_results found_two_example (\<lambda>path. WriteRaises 7) [''endpoints.txt'' \<mapsto> ''old'']
     = ([''endpoints.txt'' \<mapsto> ''http://''], [], Some OSError)"
proof -
  let ?fs = "[''endpoints.txt'' \<mapsto> ''old'']"
  let ?d = "found_two_example"
  let ?e = "found_two_example\<lparr>output_file := ''no_such_dir/out.txt''\<rparr>"
  let ?ab = "[''http://example.test/a'', ''http://example.test/b'']"
  have e: "found_endpoints start_probe_example = {||}"
    by (simp add: start_probe_example_def FuzzDriller_init_def)
  have 1: "save_results start_probe_example missing_dir_io ?fs = (?fs, [NoEndpointsLog], None)"
    using save_results_report [of start_probe_example missing_dir_io ?fs, THEN conjunct1, THEN mp, OF e]
    by (rule conjunct1)
  have ne: "found_endpoints ?d \<noteq> {||}" "found_endpoints ?e \<noteq> {||}"
    by (simp_all add: found_two_example_def)
  have o: "output_file ?d = ''endpoints.txt''" "output_file ?e = ''no_such_dir/out.txt''"
    by (simp_all add: found_two_example_def start_probe_example_def FuzzDriller_init_def)
  have ab: "sorted ?ab \<and> distinct ?ab \<and> set ?ab = fset (found_endpoints ?d)"
    "set ?ab = fset (found_endpoints ?e)"
    by (auto simp add: found_two_example_def)
  have uniq: "urls = ?ab"
    if "sorted urls" "distinct urls" "set urls = fset (found_endpoints ?d)" for urls
    using that ab(1) sorted_distinct_set_unique [of urls ?ab] by (simp only:)
  have io1: "missing_dir_io (output_file ?d) = IoOk" "missing_dir_io (output_file ?e) = OpenRaises"
    unfolding o by (simp_all add: missing_dir_io_def)
  from save_results_report [of ?d missing_dir_io ?fs, THEN conjunct2, THEN mp, OF ne(1)]
  obtain urls where s: "sorted urls" "distinct urls" "set urls = fset (found_endpoints ?d)"
    and l: "(\<forall>url \<in> set urls. CHR 0x0A \<notin> set url) \<longrightarrow>
              file_lines (concat (map (\<lambda>url. url @ [CHR 0x0A]) urls)) = urls"
    and w: "missing_dir_io (output_file ?d) = IoOk \<longrightarrow>
              save_results ?d missing_dir_io ?fs
                = (?fs(output_file ?d \<mapsto> concat (map (\<lambda>url. url @ [CHR 0x0A]) urls)),
                   [SavedLog (output_file ?d)], None)"
    by (elim exE conjE)
  have u: "urls = ?ab" using s by (rule uniq)
  have "save_results ?d missing_dir_io ?fs
          = (?fs(output_file ?d \<mapsto> concat (map (\<lambda>url. url @ [CHR 0x0A]) urls)),
             [SavedLog (output_file ?d)], None)"
    using w io1(1) by (rule mp)
  then have 2: "save_results ?d missing_dir_io ?fs
     = ([''endpoints.txt'' \<mapsto> ''http://example.test/a'' @ [CHR 0x0A] @ ''http://example.test/b'' @ [CHR 0x0A]],
        [SavedLog ''endpoints.txt''], None)"
    unfolding u o by simp
  have n: "\<forall>url \<in> set urls. CHR 0x0A \<notin> set url" unfolding u by simp
  have "file_lines (concat (map (\<lambda>url. url @ [CHR 0x0A]) urls)) = urls"
    using l n by (rule mp)
  then have 3: "file_lines (''http://example.test/a'' @ [CHR 0x0A] @ ''http://example.test/b'' @ [CHR 0x0A])
       = ?ab"
    unfolding u by simp
  from save_results_report [of ?e missing_dir_io ?fs, THEN conjunct2, THEN mp, OF ne(2)]
  obtain urls' where "missing_dir_io (output_file ?e) = OpenRaises \<longrightarrow>
              save_results ?e missing_dir_io ?fs = (?fs, [], Some OSError)"
    by (elim exE conjE)
  then have 4: "save_results ?e missing_dir_io ?fs = (?fs, [], Some OSError)"
    using io1(2) by (rule mp)
  from save_results_report [of ?d "\<lambda>path. WriteRaises 7" ?fs, THEN conjunct2, THEN mp, OF ne(1)]
  obtain urls'' where s'': "sorted urls''" "distinct urls''" "set urls'' = fset (found_endpoints ?d)"
    and w'': "\<forall>n. (\<lambda>path. WriteRaises 7) (output_file ?d) = WriteRaises n \<longrightarrow>
              save_results ?d (\<lambda>path. WriteRaises 7) ?fs
                = (?fs(output_file ?d \<mapsto> take n (concat (map (\<lambda>url. url @ [CHR 0x0A]) urls''))),
                   [], Some OSError)"
    by (elim exE conjE)
  have u'': "urls'' = ?ab" using s'' by (rule uniq)
  have "save_results ?d (\<lambda>path. WriteRaises 7) ?fs
                = (?fs(output_file ?d \<mapsto> take 7 (concat (map (\<lambda>url. url @ [CHR 0x0A]) urls''))),
                   [], Some OSError)"
    using w'' [THEN spec, of 7] by simp
  then have 5: "save_results ?d (\<lambda>path. WriteRaises 7) ?fs
     = ([''endpoints.txt'' \<mapsto> ''http://''], [], Some OSError)"
    unfolding u'' o by simp
  from 1 2 3 4 5 show ?thesis by (intro conjI)
qed

text \<open>
  Claim C3 as stated fails: with one endpoint discovered and the output path
  \<open>no_such_dir/out.txt\<close>, whose directory does not exist, opening the file raises; no report
  file is written, nothing is logged and the exception leaves \<open>_save_results\<close>.
\<close>

theorem save_results_unwritable_counterexample:
  "found_endpoints (found_two_example\<lparr>output_file := ''no_such_dir/out.txt''\<rparr>) \<noteq> {||}
   \<and> save_results (found_two_example\<lparr>output_file := ''no_such_dir/out.txt''\<rparr>) missing_dir_io Map.empty
       = (Map.empty, [], Some OSError)
   \<and> fst (save_results (found_two_example\<lparr>output_file := ''no_such_dir/out.txt''\<rparr>) missing_dir_io
            Map.empty) ''no_such_dir/out.txt'' = None"
  by (simp add: found_two_example_def save_results_def missing_dir_io_def Let_def)

section \<open>Artifact file names\<close>

lemma str_contains_iff: "str_contains sub s \<longleftrightarrow> (\<exists>ys zs. s = ys @ sub @ zs)"
proof (induction s)
  case Nil
  show ?case by auto
next
  case (Cons c cs)
  show ?case
  proof
    assume "str_contains sub (c # cs)"
    then consider "prefix sub (c # cs)" | "str_contains sub cs" by auto
    then show "\<exists>ys zs. c # cs = ys @ sub @ zs"
    proof cases
      case 1
      then obtain zs where "c # cs = sub @ zs" by (auto simp: prefix_def)
      then have "c # cs = [] @ sub @ zs" by simp
      then show ?thesis by blast
    next
      case 2
      with Cons obtain ys zs where "cs = ys @ sub @ zs" by blast
      then have "c # cs = (c # ys) @ sub @ zs" by simp
      then show ?thesis by blast
    qed
  next
    assume "\<exists>ys zs. c # cs = ys @ sub @ zs"
    then obtain ys zs where e: "c # cs = ys @ sub @ zs" by blast
    show "str_contains sub (c # cs)"
    proof (cases ys)
      case Nil
      with e have "prefix sub (c # cs)" by (simp add: prefix_def)
      then show ?thesis by simp
    next
      case (Cons y ys')
      with e have "cs = ys' @ sub @ zs" by simp
      with Cons.IH have "str_contains sub cs" by blast
      then show ?thesis by simp
    qed
  qed
qed

lemma str_remove_absent: "\<not> str_contains old s \<Longrightarrow> str_remove old s = s"
  by (induction s) auto

lemma str_remove_prefix:
  assumes "old \<noteq> []"
  shows "str_remove old (old @ rest) = str_remove old rest"
proof -
  from assms obtain c cs where o: "old @ rest = c # cs" by (cases old) auto
  have "prefix old (c # cs)" using o by (metis prefixI)
  then have "str_remove old (c # cs) = str_remove old (drop (length old) (c # cs))"
    using assms by simp
  also have "drop (length old) (c # cs) = rest" using o by (metis append_eq_conv_conj)
  finally show ?thesis using o by simp
qed

text \<open>The leftmost occurrence is removed, and the removal goes on behind it.\<close>

lemma str_remove_first:
  assumes "old \<noteq> []"
  shows "\<not> str_contains old (xs @ butlast old) \<Longrightarrow>
         str_remove old (xs @ old @ ys) = xs @ str_remove old ys"
proof (induction xs)
  case Nil
  show ?case using assms by (simp add: str_remove_prefix)
next
  case (Cons x xs)
  have tail: "\<not> str_contains old (xs @ butlast old)"
    using Cons.prems by simp
  have "\<not> prefix old (x # xs @ old @ ys)"
  proof
    assume p: "prefix old (x # xs @ old @ ys)"
    have q: "prefix (x # xs @ butlast old) (x # xs @ old @ ys)"
      using assms by (metis append_Cons append_butlast_last_id append.assoc prefixI)
    have "length old \<le> length (x # xs @ butlast old)" by simp
    with p q have "prefix old (x # xs @ butlast old)" by (rule prefix_length_prefix)
    then have "str_contains old ((x # xs) @ butlast old)" by simp
    with Cons.prems show False by simp
  qed
  then have "str_remove old ((x # xs) @ old @ ys) = x # str_remove old (xs @ old @ ys)"
    by simp
  with Cons.IH [OF tail] show ?case by simp
qed

lemma strip_decomp:
  "\<exists>m n. s = replicate m c @ strip (\<lambda>x. x = c) s @ replicate n c
         \<and> (strip (\<lambda>x. x = c) s = []
            \<or> (hd (strip (\<lambda>x. x = c) s) \<noteq> c \<and> last (strip (\<lambda>x. x = c) s) \<noteq> c))"
proof -
  let ?l = "lstrip (\<lambda>x. x = c) s"
  let ?r = "rstrip (\<lambda>x. x = c) ?l"
  obtain m where m: "s = replicate m c @ ?l" and hl: "?l = [] \<or> hd ?l \<noteq> c"
    using lstrip_decomp [of s c] by blast
  obtain n where n: "?l = ?r @ replicate n c" and lr: "?r = [] \<or> last ?r \<noteq> c"
    using rstrip_decomp [of ?l c] by blast
  have r: "strip (\<lambda>x. x = c) s = ?r" by (simp add: strip_def)
  have "?r = [] \<or> (hd ?r \<noteq> c \<and> last ?r \<noteq> c)"
  proof (cases "?r = []")
    case True
    then show ?thesis by simp
  next
    case False
    then have "hd ?l = hd ?r" using n by (metis hd_append2)
    moreover have "?l \<noteq> []" using False n by auto
    ultimately show ?thesis using hl lr False by auto
  qed
  moreover have "s = replicate m c @ ?r @ replicate n c" using m n by simp
  ultimately show ?thesis unfolding r by blast
qed

lemma sanitize_char_class: "is_word_char (sanitize_char c) \<or> sanitize_char c = CHR ''-''"
  by (simp add: sanitize_char_def is_word_char_def latin1_word_def)

lemma sanitize_char_eq:
  "sanitize_char c = (if is_word_char c \<or> c = CHR ''-'' then c else CHR ''_'')"
  by (simp add: sanitize_char_def is_word_char_def latin1_word_def)

lemma word_char_ascii:
  "of_char c < (128::nat) \<Longrightarrow> (is_word_char c \<or> c = CHR ''-'') \<longleftrightarrow> in_spec_class c"
proof -
  have "c = CHR ''-'' \<longleftrightarrow> of_char c = (45::nat)"
    using of_char_eq_iff [of c "CHR ''-''", where ?'a = nat] by simp
  then show "of_char c < (128::nat) \<Longrightarrow> (is_word_char c \<or> c = CHR ''-'') \<longleftrightarrow> in_spec_class c"
    by (auto simp add: is_word_char_def latin1_word_def in_spec_class_def Let_def)
qed

text \<open>The method on characters and the method on code points agree.\<close>

lemma prefix_map_inj: "inj f \<Longrightarrow> prefix (map f xs) (map f ys) \<longleftrightarrow> prefix xs ys"
proof (induction xs arbitrary: ys)
  case Nil
  show ?case by simp
next
  case (Cons x xs)
  show ?case
  proof (cases ys)
    case Nil
    then show ?thesis by simp
  next
    case (Cons y ys')
    with Cons.IH [OF Cons.prems, of ys'] Cons.prems show ?thesis
      by (auto dest: injD)
  qed
qed

lemma str_remove_map:
  assumes "inj f"
  shows "str_remove (map f old) (map f s) = map f (str_remove old s)"
proof (induction old s rule: str_remove.induct)
  case (1 old)
  show ?case by simp
next
  case (2 old c cs)
  show ?case
  proof (cases "old \<noteq> [] \<and> prefix old (c # cs)")
    case True
    then have "map f old \<noteq> [] \<and> prefix (map f old) (map f (c # cs))"
      using prefix_map_inj [OF assms, of old "c # cs"] by simp
    then have "str_remove (map f old) (map f (c # cs))
                 = str_remove (map f old) (drop (length (map f old)) (map f (c # cs)))"
      by simp
    also have "drop (length (map f old)) (map f (c # cs)) = map f (drop (length old) (c # cs))"
      by (simp only: length_map drop_map)
    also have "str_remove (map f old) (map f (drop (length old) (c # cs)))
                 = map f (str_remove old (drop (length old) (c # cs)))"
      using "2.IH"(1) True by simp
    finally show ?thesis using True by simp
  next
    case False
    then have n: "\<not> (map f old \<noteq> [] \<and> prefix (map f old) (f c # map f cs))"
      using prefix_map_inj [OF assms, of old "c # cs"] by simp
    have "str_remove (map f old) (f c # map f cs) = f c # str_remove (map f old) (map f cs)"
      by (simp only: str_remove.simps(2) n if_False)
    also have "str_remove (map f old) (map f cs) = map f (str_remove old cs)"
      using "2.IH"(2) [OF False] .
    finally have l: "str_remove (map f old) (map f (c # cs)) = f c # map f (str_remove old cs)"
      by simp
    have "str_remove old (c # cs) = c # str_remove old cs"
      by (simp only: str_remove.simps(2) False if_False)
    with l show ?thesis by simp
  qed
qed

lemma strip_map: "strip P (map f s) = map f (strip (P \<circ> f) s)"
  by (simp add: strip_def rstrip_def lstrip_def dropWhile_map rev_map)

lemma sanitize_point_of_char: "sanitize_point uni (of_char c) = of_char (sanitize_char c)"
proof -
  have h: "c = CHR ''-'' \<longleftrightarrow> of_char c = (45::nat)"
    using of_char_eq_iff [of c "CHR ''-''", where ?'a = nat] by simp
  have u: "c = CHR ''_'' \<longleftrightarrow> of_char c = (95::nat)"
    using of_char_eq_iff [of c "CHR ''_''", where ?'a = nat] by simp
  show ?thesis
    by (simp add: sanitize_point_def sanitize_char_def is_word_point_def is_word_char_def h u)
qed

lemma sanitize_filename_points_of_char:
  "map of_char (sanitize_filename d url)
     = sanitize_filename_points uni (map of_char (base_url d)) (map of_char url)"
proof -
  have i: "inj (of_char :: char \<Rightarrow> nat)" by (rule inj_of_char)
  have s: "(\<lambda>c. of_char c = (47::nat)) = is_slash"
  proof (rule ext)
    fix c
    show "(of_char c = (47::nat)) = is_slash c"
      using of_char_eq_iff [of c "CHR ''/''", where ?'a = nat] by (simp add: is_slash_def)
  qed
  show ?thesis
    by (simp add: sanitize_filename_def sanitize_filename_points_def str_remove_map [OF i]
        strip_map s sanitize_point_of_char o_def)
qed

text \<open>
  Claim C7, as the code has it. \<open>_sanitize_filename\<close> removes the occurrences of the base
  URL from the URL, strips all leading and trailing slashes from what is left, and then
  replaces each character that is neither a word character of \<open>\w\<close> nor a hyphen by an
  underscore, and keeps every other character. The removal takes the occurrences from left
  to right: a string without an occurrence is left as it is, and otherwise the leftmost
  occurrence is taken out and the removal goes on behind it; an empty base URL removes
  nothing. Below 128 the characters kept are exactly \<open>[A-Za-z0-9_-]\<close>; the non-ASCII
  letter U+00E9 is a word character and is kept. The same holds on strings of arbitrary
  code points, where from 256 on the word characters are those of the Unicode table, and
  the two renderings agree.
\<close>

theorem sanitize_filename_result:
  "sanitize_filename d url = map sanitize_char (strip is_slash (str_remove (base_url d) url))
   \<and> map of_char (sanitize_filename d url)
       = sanitize_filename_points uni (map of_char (base_url d)) (map of_char url)
   \<and> sanitize_filename_points uni base points
       = map (sanitize_point uni) (strip (\<lambda>n. n = 47) (str_remove base points))
   \<and> (\<not> str_contains old s \<longrightarrow> str_remove old s = s)
   \<and> (old \<noteq> [] \<and> \<not> str_contains old (xs @ butlast old) \<longrightarrow>
        str_remove old (xs @ old @ ys) = xs @ str_remove old ys)
   \<and> (str_contains old s \<longleftrightarrow> (\<exists>ys zs. s = ys @ old @ zs))
   \<and> (\<exists>m n. t = replicate m CHR ''/'' @ strip is_slash t @ replicate n CHR ''/''
         \<and> (strip is_slash t = []
            \<or> (hd (strip is_slash t) \<noteq> CHR ''/'' \<and> last (strip is_slash t) \<noteq> CHR ''/'')))
   \<and> (\<forall>c. sanitize_char c = (if is_word_char c \<or> c = CHR ''-'' then c else CHR ''_''))
   \<and> (\<forall>c. of_char c < (128::nat) \<longrightarrow> ((is_word_char c \<or> c = CHR ''-'') \<longleftrightarrow> in_spec_class c))
   \<and> is_word_char (CHR 0xE9)
   \<and> (\<forall>n. sanitize_point uni n = (if is_word_point uni n \<or> n = 45 then n else 95))
   \<and> (\<forall>c. is_word_point uni (of_char c) \<longleftrightarrow> is_word_char c)
   \<and> (\<forall>n. 256 \<le> n \<longrightarrow> (is_word_point uni n \<longleftrightarrow> uni n))
   \<and> str_remove [] s = s"
proof (intro conjI allI impI)
  show "sanitize_filename d url = map sanitize_char (strip is_slash (str_remove (base_url d) url))"
    by (simp add: sanitize_filename_def)
  show "map of_char (sanitize_filename d url)
       = sanitize_filename_points uni (map of_char (base_url d)) (map of_char url)"
    by (rule sanitize_filename_points_of_char)
  show "sanitize_filename_points uni base points
       = map (sanitize_point uni) (strip (\<lambda>n. n = 47) (str_remove base points))"
    by (simp add: sanitize_filename_points_def)
  show "str_remove old s = s" if "\<not> str_contains old s"
    using that by (rule str_remove_absent)
  show "str_remove old (xs @ old @ ys) = xs @ str_remove old ys"
    if "old \<noteq> [] \<and> \<not> str_contains old (xs @ butlast old)"
    using that str_remove_first [of old xs ys] by blast
  show "str_contains old s \<longleftrightarrow> (\<exists>ys zs. s = ys @ old @ zs)"
    by (rule str_contains_iff)
  show "\<exists>m n. t = replicate m CHR ''/'' @ strip is_slash t @ replicate n CHR ''/''
         \<and> (strip is_slash t = []
            \<or> (hd (strip is_slash t) \<noteq> CHR ''/'' \<and> last (strip is_slash t) \<noteq> CHR ''/''))"
    using strip_decomp [of t "CHR ''/''"] unfolding is_slash_eq .
  show "sanitize_char c = (if is_word_char c \<or> c = CHR ''-'' then c else CHR ''_'')" for c
    by (rule sanitize_char_eq)
  show "(is_word_char c \<or> c = CHR ''-'') \<longleftrightarrow> in_spec_class c" if "of_char c < (128::nat)" for c
    using that by (rule word_char_ascii)
  show "is_word_char (CHR 0xE9)" by (simp add: is_word_char_def latin1_word_def)
  show "sanitize_point uni n = (if is_word_point uni n \<or> n = 45 then n else 95)" for n
    by (simp add: sanitize_point_def is_word_point_def latin1_word_def)
  show "is_word_point uni (of_char c) \<longleftrightarrow> is_word_char c" for c
    by (simp add: is_word_point_def is_word_char_def)
  show "is_word_point uni n \<longleftrightarrow> uni n" if "256 \<le> n" for n
    using that by (simp add: is_word_point_def)
  show "str_remove [] s = s"
    by (induction s) simp_all
qed

theorem sanitize_filename_result_witness:
  "sanitize_filename start_probe_example ''http://example.test/x/http://example.test/y-z.php/''
     = ''x__y-z_php''
   \<and> str_remove ''ab'' ''xyz'' = ''xyz''
   \<and> str_remove ''ab'' ''xababy'' = ''xy''
   \<and> in_spec_class (CHR ''-'')
   \<and> sanitize_char (CHR 0xE9) = CHR 0xE9
   \<and> sanitize_point (\<lambda>n. n = 20013) 20013 = 20013
   \<and> sanitize_point (\<lambda>n. n = 20013) 8364 = 95"
proof -
  let ?uni = "\<lambda>n::nat. n = 20013"
  note t = sanitize_filename_result [where d = start_probe_example
      and url = "''http://example.test/x/http://example.test/y-z.php/''" and uni = ?uni
      and old = "''ab''" and s = "''xyz''" and xs = "''x''" and ys = "''aby''"]
  have b: "base_url start_probe_example = ''http://example.test''"
    by (simp add: start_probe_example_def FuzzDriller_init_def rstrip_def is_slash_def)
  have 1: "sanitize_filename start_probe_example ''http://example.test/x/http://example.test/y-z.php/''
     = ''x__y-z_php''"
    unfolding t [THEN conjunct1] b
    by (simp add: sanitize_char_def is_word_char_def latin1_word_def strip_def rstrip_def lstrip_def
        is_slash_def)
  have "\<not> str_contains ''ab'' ''xyz''" by simp
  with t [THEN conjunct2, THEN conjunct2, THEN conjunct2, THEN conjunct1] have 2: "str_remove ''ab'' ''xyz'' = ''xyz''" by (rule mp)
  have "''ab'' \<noteq> [] \<and> \<not> str_contains ''ab'' (''x'' @ butlast ''ab'')" by simp
  with t [THEN conjunct2, THEN conjunct2, THEN conjunct2, THEN conjunct2, THEN conjunct1] have "str_remove ''ab'' (''x'' @ ''ab'' @ ''aby'') = ''x'' @ str_remove ''ab'' ''aby''"
    by (rule mp)
  then have 3: "str_remove ''ab'' ''xababy'' = ''xy''" by simp
  have "of_char (CHR ''-'') < (128::nat)" by simp
  with t [THEN conjunct2, THEN conjunct2, THEN conjunct2, THEN conjunct2, THEN conjunct2, THEN conjunct2, THEN conjunct2, THEN conjunct2, THEN conjunct1, THEN spec, of "CHR ''-''"]
  have "(is_word_char (CHR ''-'') \<or> CHR ''-'' = CHR ''-'') \<longleftrightarrow> in_spec_class (CHR ''-'')"
    by (rule mp)
  then have 4: "in_spec_class (CHR ''-'')" by simp
  have 5: "sanitize_char (CHR 0xE9) = CHR 0xE9"
    using t [THEN conjunct2, THEN conjunct2, THEN conjunct2, THEN conjunct2, THEN conjunct2, THEN conjunct2, THEN conjunct2, THEN conjunct1, THEN spec, of "CHR 0xE9"] t [THEN conjunct2, THEN conjunct2, THEN conjunct2, THEN conjunct2, THEN conjunct2, THEN conjunct2, THEN conjunct2, THEN conjunct2, THEN conjunct2, THEN conjunct1] by simp
  have w: "is_word_point ?uni 20013 \<longleftrightarrow> ?uni 20013" "is_word_point ?uni 8364 \<longleftrightarrow> ?uni 8364"
    using t [THEN conjunct2, THEN conjunct2, THEN conjunct2, THEN conjunct2, THEN conjunct2, THEN conjunct2, THEN conjunct2, THEN conjunct2, THEN conjunct2, THEN conjunct2, THEN conjunct2, THEN conjunct2, THEN conjunct1, THEN spec, of 20013] t [THEN conjunct2, THEN conjunct2, THEN conjunct2, THEN conjunct2, THEN conjunct2, THEN conjunct2, THEN conjunct2, THEN conjunct2, THEN conjunct2, THEN conjunct2, THEN conjunct2, THEN conjunct2, THEN conjunct1, THEN spec, of 8364] by simp_all
  have 6: "sanitize_point ?uni 20013 = 20013"
    using t [THEN conjunct2, THEN conjunct2, THEN conjunct2, THEN conjunct2, THEN conjunct2, THEN conjunct2, THEN conjunct2, THEN conjunct2, THEN conjunct2, THEN conjunct2, THEN conjunct1, THEN spec, of 20013] w(1) by simp
  have 7: "sanitize_point ?uni 8364 = 95"
    using t [THEN conjunct2, THEN conjunct2, THEN conjunct2, THEN conjunct2, THEN conjunct2, THEN conjunct2, THEN conjunct2, THEN conjunct2, THEN conjunct2, THEN conjunct2, THEN conjunct1, THEN spec, of 8364] w(2) by simp
  from 1 2 3 4 5 6 7 show ?thesis by (intro conjI)
qed

text \<open>
  Claim C7 as stated fails: for the URL \<open>http://example.test/caf\<close> followed by U+00E9 the
  code gives \<open>caf\<close> followed by U+00E9, while removing the prefix and replacing everything
  outside \<open>[A-Za-z0-9_-]\<close> would give \<open>_caf_\<close>: the slash is stripped, not replaced, and
  the non-ASCII letter is kept.
\<close>

theorem sanitize_filename_spec_counterexample:
  "sanitize_filename start_probe_example (''http://example.test/caf'' @ [CHR 0xE9])
     = ''caf'' @ [CHR 0xE9]
   \<and> spec_sanitize_filename (base_url start_probe_example) (''http://example.test/caf'' @ [CHR 0xE9])
     = ''_caf_''
   \<and> sanitize_filename start_probe_example (''http://example.test/caf'' @ [CHR 0xE9])
     \<noteq> spec_sanitize_filename (base_url start_probe_example) (''http://example.test/caf'' @ [CHR 0xE9])"
  by (simp add: start_probe_example_def FuzzDriller_init_def sanitize_filename_def
      sanitize_char_def is_word_char_def latin1_word_def strip_def rstrip_def lstrip_def
      is_slash_def spec_sanitize_filename_def in_spec_class_def)

section \<open>Downloaded artifacts\<close>

lemma download_content_artifact_iff:
  "download_content d io url resp = (Some (path, content), [DownloadedLog url path]) \<longleftrightarrow>
      session d \<and>
      (\<exists>st ct ext. resp = GetResponse st ct (Some content) \<and> st \<in> set (valid_status_codes d)
          \<and> get_file_extension (case ct of None \<Rightarrow> [] | Some v \<Rightarrow> v) = Some ext
          \<and> path = ''downloaded_pages/'' @ sanitize_filename d url @ ''.'' @ ext
          \<and> io path = IoOk)"
  by (cases resp)
    (auto simp add: download_content_def Let_def split: option.splits io_outcome.splits)

lemma download_content_file_only_when:
  "fst (download_content d io url resp) = Some (path, content) \<Longrightarrow>
      session d \<and>
      (\<exists>st ct body ext. resp = GetResponse st ct body \<and> st \<in> set (valid_status_codes d)
          \<and> get_file_extension (case ct of None \<Rightarrow> [] | Some v \<Rightarrow> v) = Some ext
          \<and> path = ''downloaded_pages/'' @ sanitize_filename d url @ ''.'' @ ext)"
  by (cases resp)
    (auto simp add: download_content_def Let_def split: option.splits io_outcome.splits if_splits)

lemma download_content_nothing:
  "session d \<Longrightarrow>
   st \<notin> set (valid_status_codes d) \<or> get_file_extension (case ct of None \<Rightarrow> [] | Some v \<Rightarrow> v) = None \<Longrightarrow>
   download_content d io url (GetResponse st ct body) = (None, [])"
  by (auto simp add: download_content_def Let_def)

lemma download_content_open_raises:
  "session d \<Longrightarrow> st \<in> set (valid_status_codes d) \<Longrightarrow>
   get_file_extension (case ct of None \<Rightarrow> [] | Some v \<Rightarrow> v) = Some ext \<Longrightarrow>
   io (''downloaded_pages/'' @ sanitize_filename d url @ ''.'' @ ext) = OpenRaises \<Longrightarrow>
   download_content d io url (GetResponse st ct body) = (None, [DownloadFailedLog url])"
  by (simp add: download_content_def Let_def)

text \<open>
  Claim C6, as the code has it. \<open>download_content\<close> persists the body and logs the download
  exactly when the session is open, the GET request is answered with a status of the
  acceptance set and a body that can be read, the \<open>Content-Type\<close> header has a known
  extension and the file system takes the file
  \<open>downloaded_pages/<sanitized name>.<extension>\<close>; and it touches a file only when the status
  is in the acceptance set and the header has a known extension. The extension is decided
  by what the text of the header CONTAINS, as written: \<open>html\<close> if it contains \<open>text/html\<close>,
  else \<open>js\<close> if it contains \<open>application/javascript\<close>, else \<open>php\<close> if it contains
  \<open>application/x-httpd-php\<close> or \<open>text/x-php\<close>, else none. A status outside the acceptance
  set or a header without extension, such as \<open>application/octet-stream\<close>, gives no file and
  no log line; a file that cannot be opened gives no file and one error line.
\<close>

theorem download_content_artifact:
  "(download_content d io url resp = (Some (path, content), [DownloadedLog url path]) \<longleftrightarrow>
      session d \<and>
      (\<exists>st ct ext. resp = GetResponse st ct (Some content) \<and> st \<in> set (valid_status_codes d)
          \<and> get_file_extension (case ct of None \<Rightarrow> [] | Some v \<Rightarrow> v) = Some ext
          \<and> path = ''downloaded_pages/'' @ sanitize_filename d url @ ''.'' @ ext
          \<and> io path = IoOk))
   \<and> (fst (download_content d io url resp) = Some (path, content) \<longrightarrow>
      session d \<and>
      (\<exists>st ct body ext. resp = GetResponse st ct body \<and> st \<in> set (valid_status_codes d)
          \<and> get_file_extension (case ct of None \<Rightarrow> [] | Some v \<Rightarrow> v) = Some ext
          \<and> path = ''downloaded_pages/'' @ sanitize_filename d url @ ''.'' @ ext))
   \<and> get_file_extension content_type =
       (if \<exists>ys zs. content_type = ys @ ''text/html'' @ zs then Some ''html''
        else if \<exists>ys zs. content_type = ys @ ''application/javascript'' @ zs then Some ''js''
        else if (\<exists>ys zs. content_type = ys @ ''application/x-httpd-php'' @ zs)
                \<or> (\<exists>ys zs. content_type = ys @ ''text/x-php'' @ zs) then Some ''php''
        else None)
   \<and> get_file_extension ''text/html'' = Some ''html''
   \<and> get_file_extension ''application/javascript'' = Some ''js''
   \<and> get_file_extension ''application/x-httpd-php'' = Some ''php''
   \<and> get_file_extension ''text/x-php'' = Some ''php''
   \<and> get_file_extension ''application/octet-stream'' = None
   \<and> (session d \<and> (st \<notin> set (valid_status_codes d)
                    \<or> get_file_extension (case ct of None \<Rightarrow> [] | Some v \<Rightarrow> v) = None) \<longrightarrow>
        download_content d io url (GetResponse st ct body) = (None, []))
   \<and> (session d \<and> st \<in> set (valid_status_codes d)
        \<and> get_file_extension (case ct of None \<Rightarrow> [] | Some v \<Rightarrow> v) = Some ext
        \<and> io (''downloaded_pages/'' @ sanitize_filename d url @ ''.'' @ ext) = OpenRaises \<longrightarrow>
        download_content d io url (GetResponse st ct body) = (None, [DownloadFailedLog url]))"
proof (intro conjI impI)
  show "download_content d io url resp = (Some (path, content), [DownloadedLog url path]) \<longleftrightarrow>
      session d \<and>
      (\<exists>st ct ext. resp = GetResponse st ct (Some content) \<and> st \<in> set (valid_status_codes d)
          \<and> get_file_extension (case ct of None \<Rightarrow> [] | Some v \<Rightarrow> v) = Some ext
          \<and> path = ''downloaded_pages/'' @ sanitize_filename d url @ ''.'' @ ext
          \<and> io path = IoOk)"
    by (rule download_content_artifact_iff)
  show "session d" if "fst (download_content d io url resp) = Some (path, content)"
    using download_content_file_only_when [OF that] by (rule conjunct1)
  show "\<exists>st ct body ext. resp = GetResponse st ct body \<and> st \<in> set (valid_status_codes d)
          \<and> get_file_extension (case ct of None \<Rightarrow> [] | Some v \<Rightarrow> v) = Some ext
          \<and> path = ''downloaded_pages/'' @ sanitize_filename d url @ ''.'' @ ext"
    if "fst (download_content d io url resp) = Some (path, content)"
    using download_content_file_only_when [OF that] by (rule conjunct2)
  show "get_file_extension content_type =
       (if \<exists>ys zs. content_type = ys @ ''text/html'' @ zs then Some ''html''
        else if \<exists>ys zs. content_type = ys @ ''application/javascript'' @ zs then Some ''js''
        else if (\<exists>ys zs. content_type = ys @ ''application/x-httpd-php'' @ zs)
                \<or> (\<exists>ys zs. content_type = ys @ ''text/x-php'' @ zs) then Some ''php''
        else None)"
    unfolding get_file_extension_def str_contains_iff ..
  show "get_file_extension ''text/html'' = Some ''html''"
    "get_file_extension ''application/javascript'' = Some ''js''"
    "get_file_extension ''application/x-httpd-php'' = Some ''php''"
    "get_file_extension ''text/x-php'' = Some ''php''"
    "get_file_extension ''application/octet-stream'' = None"
    by (simp_all add: get_file_extension_def)
  show "download_content d io url (GetResponse st ct body) = (None, [])"
    if "session d \<and> (st \<notin> set (valid_status_codes d)
                    \<or> get_file_extension (case ct of None \<Rightarrow> [] | Some v \<Rightarrow> v) = None)"
    using that download_content_nothing [of d st ct io url body] by blast
  show "download_content d io url (GetResponse st ct body) = (None, [DownloadFailedLog url])"
    if "session d \<and> st \<in> set (valid_status_codes d)
        \<and> get_file_extension (case ct of None \<Rightarrow> [] | Some v \<Rightarrow> v) = Some ext
        \<and> io (''downloaded_pages/'' @ sanitize_filename d url @ ''.'' @ ext) = OpenRaises"
    using that download_content_open_raises [of d st ct ext io url body] by blast
qed

theorem download_content_artifact_witness:
  "download_content start_probe_example missing_dir_io ''http://example.test/a''
          (GetResponse 200 (Some ''text/html'') (Some ''<html></html>''))
     = (Some (''downloaded_pages/a.html'', ''<html></html>''),
        [DownloadedLog ''http://example.test/a'' ''downloaded_pages/a.html''])
   \<and> download_content start_probe_example missing_dir_io ''http://example.test/a''
          (GetResponse 200 (Some ''application/octet-stream'') (Some ''data'')) = (None, [])
   \<and> download_content start_probe_example (\<lambda>path. OpenRaises) ''http://example.test/a''
          (GetResponse 200 (Some ''text/html'') (Some ''<html></html>''))
     = (None, [DownloadFailedLog ''http://example.test/a''])"
proof -
  let ?u = "''http://example.test/a''"
  let ?r = "GetResponse 200 (Some ''text/html'') (Some ''<html></html>'')"
  have sn: "sanitize_filename start_probe_example ?u = ''a''"
    by (simp add: start_probe_example_def FuzzDriller_init_def sanitize_filename_def
        sanitize_char_def is_word_char_def latin1_word_def strip_def rstrip_def lstrip_def
        is_slash_def)
  have ss: "session start_probe_example" "200 \<in> set (valid_status_codes start_probe_example)"
    by (simp_all add: start_probe_example_def FuzzDriller_init_def)
  have h: "get_file_extension (case Some ''text/html'' of None \<Rightarrow> [] | Some v \<Rightarrow> v) = Some ''html''"
    by (simp add: get_file_extension_def)
  have r: "session start_probe_example \<and>
      (\<exists>st ct ext. ?r = GetResponse st ct (Some ''<html></html>'')
          \<and> st \<in> set (valid_status_codes start_probe_example)
          \<and> get_file_extension (case ct of None \<Rightarrow> [] | Some v \<Rightarrow> v) = Some ext
          \<and> ''downloaded_pages/a.html''
              = ''downloaded_pages/'' @ sanitize_filename start_probe_example ?u @ ''.'' @ ext
          \<and> missing_dir_io ''downloaded_pages/a.html'' = IoOk)"
    using ss h by (simp add: sn missing_dir_io_def)
  have 1: "download_content start_probe_example missing_dir_io ?u ?r
     = (Some (''downloaded_pages/a.html'', ''<html></html>''),
        [DownloadedLog ?u ''downloaded_pages/a.html''])"
    using download_content_artifact [where d = start_probe_example and io = missing_dir_io
        and url = ?u and resp = ?r and path = "''downloaded_pages/a.html''"
        and content = "''<html></html>''", THEN conjunct1] r
    by (rule iffD2)
  have n: "session start_probe_example \<and> (200 \<notin> set (valid_status_codes start_probe_example) \<or>
      get_file_extension (case Some ''application/octet-stream'' of None \<Rightarrow> [] | Some v \<Rightarrow> v) = None)"
    using ss by (simp add: get_file_extension_def)
  have 2: "download_content start_probe_example missing_dir_io ?u
          (GetResponse 200 (Some ''application/octet-stream'') (Some ''data'')) = (None, [])"
    using download_content_artifact [where d = start_probe_example and io = missing_dir_io
        and url = ?u and st = 200 and ct = "Some ''application/octet-stream''"
        and body = "Some ''data''",
        THEN conjunct2, THEN conjunct2, THEN conjunct2, THEN conjunct2, THEN conjunct2,
        THEN conjunct2, THEN conjunct2, THEN conjunct2, THEN conjunct1] n
    by (rule mp)
  have o: "session start_probe_example \<and> 200 \<in> set (valid_status_codes start_probe_example)
        \<and> get_file_extension (case Some ''text/html'' of None \<Rightarrow> [] | Some v \<Rightarrow> v) = Some ''html''
        \<and> (\<lambda>path. OpenRaises) (''downloaded_pages/'' @ sanitize_filename start_probe_example ?u @ ''.'' @ ''html'')
            = OpenRaises"
    using ss h by simp
  have 3: "download_content start_probe_example (\<lambda>path. OpenRaises) ?u ?r
     = (None, [DownloadFailedLog ?u])"
    using download_content_artifact [where d = start_probe_example and io = "\<lambda>path. OpenRaises"
        and url = ?u and st = 200 and ct = "Some ''text/html''" and ext = "''html''"
        and body = "Some ''<html></html>''",
        THEN conjunct2, THEN conjunct2, THEN conjunct2, THEN conjunct2, THEN conjunct2,
        THEN conjunct2, THEN conjunct2, THEN conjunct2, THEN conjunct2] o
    by (rule mp)
  from 1 2 3 show ?thesis by (intro conjI)
qed

text \<open>
  Claim C6 as stated fails. The header \<open>application/octet-stream; name=text/html\<close> is of
  the content type \<open>application/octet-stream\<close>, for which the claim promises no artifact; it
  contains \<open>text/html\<close>, and a response with it and status 200 is saved with the extension
  \<open>html\<close>. The header \<open>Text/HTML\<close> is of the content type \<open>text/html\<close>, written in capitals as
  HTTP allows; it does not contain \<open>text/html\<close> and nothing is saved.
\<close>

theorem get_file_extension_other_counterexample:
  "get_file_extension ''application/octet-stream; name=text/html'' = Some ''html''
   \<and> download_content start_probe_example missing_dir_io ''http://example.test/a''
        (GetResponse 200 (Some ''application/octet-stream; name=text/html'') (Some ''data''))
       = (Some (''downloaded_pages/a.html'', ''data''),
          [DownloadedLog ''http://example.test/a'' ''downloaded_pages/a.html''])
   \<and> get_file_extension ''Text/HTML'' = None
   \<and> download_content start_probe_example missing_dir_io ''http://example.test/a''
        (GetResponse 200 (Some ''Text/HTML'') (Some ''<html></html>'')) = (None, [])"
  by (simp add: start_probe_example_def FuzzDriller_init_def get_file_extension_def
      download_content_def Let_def missing_dir_io_def
      sanitize_filename_def sanitize_char_def is_word_char_def latin1_word_def strip_def
      rstrip_def lstrip_def is_slash_def)

section \<open>Editing the configuration\<close>

lemma map_int_None: "map_int ps = None \<longleftrightarrow> list_ex (\<lambda>piece. py_int piece = None) ps"
  by (induction ps) (auto split: option.splits)

lemma set_configurations_error:
  "(\<exists>e. fst (set_configurations json_loads cfg a) = Some e \<and> (e = JSONDecodeError \<or> e = ValueError))
     \<longleftrightarrow> malformed json_loads a"
  by (auto simp add: set_configurations_def malformed_def Let_def map_int_None [symmetric]
      split: option.splits if_splits)

lemma set_configurations_ok:
  "fst (set_configurations json_loads cfg a) = None \<longleftrightarrow> \<not> malformed json_loads a"
  by (auto simp add: set_configurations_def malformed_def Let_def map_int_None [symmetric]
      split: option.splits if_splits)

text \<open>Option 2 case by case: which exception leaves it, if any, and what the variables
  hold then.\<close>

lemma set_configurations_cases:
  assumes "cfg3 = cfg\<lparr>cfg_base_url :=
                       (if strip isspace (ans_base_url a) \<noteq> []
                        then Some (strip isspace (ans_base_url a)) else cfg_base_url cfg),
                     cfg_wordlist :=
                       (if strip isspace (ans_wordlist a) \<noteq> []
                        then strip isspace (ans_wordlist a) else cfg_wordlist cfg),
                     cfg_output_file :=
                       (if strip isspace (ans_output_file a) \<noteq> []
                        then strip isspace (ans_output_file a) else cfg_output_file cfg)\<rparr>"
    and "h_in = strip isspace (ans_headers a)" and "c_in = strip isspace (ans_cookies a)"
    and "m_in = strip isspace (ans_methods a)" and "s_in = strip isspace (ans_status_codes a)"
  shows "h_in \<noteq> [] \<and> json_loads h_in = None \<Longrightarrow>
           set_configurations json_loads cfg a = (Some JSONDecodeError, cfg3)"
    and "(h_in = [] \<and> hv = cfg_headers cfg) \<or> (h_in \<noteq> [] \<and> json_loads h_in = Some hv) \<Longrightarrow>
         c_in \<noteq> [] \<and> json_loads c_in = None \<Longrightarrow>
           set_configurations json_loads cfg a = (Some JSONDecodeError, cfg3\<lparr>cfg_headers := hv\<rparr>)"
    and "(h_in = [] \<and> hv = cfg_headers cfg) \<or> (h_in \<noteq> [] \<and> json_loads h_in = Some hv) \<Longrightarrow>
         (c_in = [] \<and> cv = cfg_cookies cfg) \<or> (c_in \<noteq> [] \<and> json_loads c_in = Some cv) \<Longrightarrow>
         s_in \<noteq> [] \<and> map_int (split_comma s_in) = None \<Longrightarrow>
           set_configurations json_loads cfg a
             = (Some ValueError,
                cfg3\<lparr>cfg_headers := hv, cfg_cookies := cv,
                     cfg_methods := (if m_in \<noteq> [] then split_comma m_in else cfg_methods cfg)\<rparr>)"
    and "(h_in = [] \<and> hv = cfg_headers cfg) \<or> (h_in \<noteq> [] \<and> json_loads h_in = Some hv) \<Longrightarrow>
         (c_in = [] \<and> cv = cfg_cookies cfg) \<or> (c_in \<noteq> [] \<and> json_loads c_in = Some cv) \<Longrightarrow>
         (s_in = [] \<and> codes = cfg_valid_status_codes cfg)
           \<or> (s_in \<noteq> [] \<and> map_int (split_comma s_in) = Some codes) \<Longrightarrow>
           set_configurations json_loads cfg a
             = (None,
                cfg3\<lparr>cfg_headers := hv, cfg_cookies := cv,
                     cfg_methods := (if m_in \<noteq> [] then split_comma m_in else cfg_methods cfg),
                     cfg_valid_status_codes := codes\<rparr>)"
  unfolding assms by (auto simp add: set_configurations_def Let_def)

text \<open>
  Claim C8, as the code has it. When the operator chooses option 2, the target, the
  wordlist and the output file are assigned first, each from its answer if one was typed.
  When the headers are then given and \<open>json.loads\<close> rejects them, \<open>JSONDecodeError\<close> ends the
  loop with these three already assigned. When the headers are fine and the cookies are
  rejected, \<open>JSONDecodeError\<close> ends the loop with the headers assigned as well. When both
  are fine and a piece of the status codes is not an integer, \<open>ValueError\<close> ends the loop
  with headers, cookies and methods assigned as well. In each case the option prints
  nothing, nothing typed afterwards is read, and the values held before are not put back.
  When no answer is malformed, every answer is assigned, "Configurations updated." is
  printed and the loop goes on. The loop ends with an exception exactly when an answer is
  malformed.
\<close>

theorem malformed_configuration_ends_menu:
  assumes "strip isspace line = ''2''"
    and "cfg3 = cfg\<lparr>cfg_base_url :=
                       (if strip isspace (ans_base_url a) \<noteq> []
                        then Some (strip isspace (ans_base_url a)) else cfg_base_url cfg),
                     cfg_wordlist :=
                       (if strip isspace (ans_wordlist a) \<noteq> []
                        then strip isspace (ans_wordlist a) else cfg_wordlist cfg),
                     cfg_output_file :=
                       (if strip isspace (ans_output_file a) \<noteq> []
                        then strip isspace (ans_output_file a) else cfg_output_file cfg)\<rparr>"
    and "h_in = strip isspace (ans_headers a)" and "c_in = strip isspace (ans_cookies a)"
    and "m_in = strip isspace (ans_methods a)" and "s_in = strip isspace (ans_status_codes a)"
  shows "(h_in \<noteq> [] \<and> json_loads h_in = None \<longrightarrow>
            menu_loop json_loads io web cfg ((line, a) # rest) = (Crashed JSONDecodeError, cfg3, []))
         \<and> (((h_in = [] \<and> hv = cfg_headers cfg) \<or> (h_in \<noteq> [] \<and> json_loads h_in = Some hv))
             \<and> c_in \<noteq> [] \<and> json_loads c_in = None \<longrightarrow>
            menu_loop json_loads io web cfg ((line, a) # rest)
              = (Crashed JSONDecodeError, cfg3\<lparr>cfg_headers := hv\<rparr>, []))
         \<and> (((h_in = [] \<and> hv = cfg_headers cfg) \<or> (h_in \<noteq> [] \<and> json_loads h_in = Some hv))
             \<and> ((c_in = [] \<and> cv = cfg_cookies cfg) \<or> (c_in \<noteq> [] \<and> json_loads c_in = Some cv))
             \<and> s_in \<noteq> [] \<and> map_int (split_comma s_in) = None \<longrightarrow>
            menu_loop json_loads io web cfg ((line, a) # rest)
              = (Crashed ValueError,
                 cfg3\<lparr>cfg_headers := hv, cfg_cookies := cv,
                      cfg_methods := (if m_in \<noteq> [] then split_comma m_in else cfg_methods cfg)\<rparr>,
                 []))
         \<and> (((h_in = [] \<and> hv = cfg_headers cfg) \<or> (h_in \<noteq> [] \<and> json_loads h_in = Some hv))
             \<and> ((c_in = [] \<and> cv = cfg_cookies cfg) \<or> (c_in \<noteq> [] \<and> json_loads c_in = Some cv))
             \<and> ((s_in = [] \<and> codes = cfg_valid_status_codes cfg)
                 \<or> (s_in \<noteq> [] \<and> map_int (split_comma s_in) = Some codes)) \<longrightarrow>
            menu_step json_loads io web cfg (line, a)
              = (None,
                 cfg3\<lparr>cfg_headers := hv, cfg_cookies := cv,
                      cfg_methods := (if m_in \<noteq> [] then split_comma m_in else cfg_methods cfg),
                      cfg_valid_status_codes := codes\<rparr>,
                 [ConfigUpdated]))
         \<and> (map_int (split_comma s_in) = None
              \<longleftrightarrow> (\<exists>piece \<in> set (split_comma s_in). py_int piece = None))
         \<and> (malformed json_loads a
              \<longleftrightarrow> (h_in \<noteq> [] \<and> json_loads h_in = None) \<or> (c_in \<noteq> [] \<and> json_loads c_in = None)
                  \<or> (s_in \<noteq> [] \<and> map_int (split_comma s_in) = None))
         \<and> (malformed json_loads a
              \<longleftrightarrow> (\<exists>e cfg'. menu_loop json_loads io web cfg ((line, a) # rest) = (Crashed e, cfg', [])))
         \<and> (\<not> malformed json_loads a
              \<longleftrightarrow> (\<exists>cfg'. menu_step json_loads io web cfg (line, a) = (None, cfg', [ConfigUpdated])))"
proof -
  note c = set_configurations_cases [where json_loads = json_loads, OF assms(2-6)]
  have step: "menu_step json_loads io web cfg (line, a)
                = (case set_configurations json_loads cfg a of
                     (Some e, cfg') \<Rightarrow> (Some (Crashed e), cfg', [])
                   | (None, cfg') \<Rightarrow> (None, cfg', [ConfigUpdated]))"
    using assms(1) by (simp add: menu_step_def)
  have crash: "menu_loop json_loads io web cfg ((line, a) # rest) = (Crashed e, cfg', [])"
    if "set_configurations json_loads cfg a = (Some e, cfg')" for e cfg'
    using that by (simp add: step)
  have 1: "h_in \<noteq> [] \<and> json_loads h_in = None \<longrightarrow>
            menu_loop json_loads io web cfg ((line, a) # rest) = (Crashed JSONDecodeError, cfg3, [])"
    using c(1) crash by blast
  have 2: "((h_in = [] \<and> hv = cfg_headers cfg) \<or> (h_in \<noteq> [] \<and> json_loads h_in = Some hv))
             \<and> c_in \<noteq> [] \<and> json_loads c_in = None \<longrightarrow>
            menu_loop json_loads io web cfg ((line, a) # rest)
              = (Crashed JSONDecodeError, cfg3\<lparr>cfg_headers := hv\<rparr>, [])"
    using c(2) [where hv = hv] crash by blast
  have 3: "((h_in = [] \<and> hv = cfg_headers cfg) \<or> (h_in \<noteq> [] \<and> json_loads h_in = Some hv))
             \<and> ((c_in = [] \<and> cv = cfg_cookies cfg) \<or> (c_in \<noteq> [] \<and> json_loads c_in = Some cv))
             \<and> s_in \<noteq> [] \<and> map_int (split_comma s_in) = None \<longrightarrow>
            menu_loop json_loads io web cfg ((line, a) # rest)
              = (Crashed ValueError,
                 cfg3\<lparr>cfg_headers := hv, cfg_cookies := cv,
                      cfg_methods := (if m_in \<noteq> [] then split_comma m_in else cfg_methods cfg)\<rparr>,
                 [])"
    using c(3) [where hv = hv and cv = cv] crash by blast
  have 4: "((h_in = [] \<and> hv = cfg_headers cfg) \<or> (h_in \<noteq> [] \<and> json_loads h_in = Some hv))
             \<and> ((c_in = [] \<and> cv = cfg_cookies cfg) \<or> (c_in \<noteq> [] \<and> json_loads c_in = Some cv))
             \<and> ((s_in = [] \<and> codes = cfg_valid_status_codes cfg)
                 \<or> (s_in \<noteq> [] \<and> map_int (split_comma s_in) = Some codes)) \<longrightarrow>
            menu_step json_loads io web cfg (line, a)
              = (None,
                 cfg3\<lparr>cfg_headers := hv, cfg_cookies := cv,
                      cfg_methods := (if m_in \<noteq> [] then split_comma m_in else cfg_methods cfg),
                      cfg_valid_status_codes := codes\<rparr>,
                 [ConfigUpdated])"
  proof
    assume h: "((h_in = [] \<and> hv = cfg_headers cfg) \<or> (h_in \<noteq> [] \<and> json_loads h_in = Some hv))
             \<and> ((c_in = [] \<and> cv = cfg_cookies cfg) \<or> (c_in \<noteq> [] \<and> json_loads c_in = Some cv))
             \<and> ((s_in = [] \<and> codes = cfg_valid_status_codes cfg)
                 \<or> (s_in \<noteq> [] \<and> map_int (split_comma s_in) = Some codes))"
    have "set_configurations json_loads cfg a
             = (None,
                cfg3\<lparr>cfg_headers := hv, cfg_cookies := cv,
                     cfg_methods := (if m_in \<noteq> [] then split_comma m_in else cfg_methods cfg),
                     cfg_valid_status_codes := codes\<rparr>)"
      using c(4) [where hv = hv and cv = cv and codes = codes] h by blast
    then show "menu_step json_loads io web cfg (line, a)
              = (None,
                 cfg3\<lparr>cfg_headers := hv, cfg_cookies := cv,
                      cfg_methods := (if m_in \<noteq> [] then split_comma m_in else cfg_methods cfg),
                      cfg_valid_status_codes := codes\<rparr>,
                 [ConfigUpdated])"
      by (simp add: step)
  qed
  have 5: "map_int (split_comma s_in) = None
              \<longleftrightarrow> (\<exists>piece \<in> set (split_comma s_in). py_int piece = None)"
    by (simp add: map_int_None list_ex_iff)
  have 6: "malformed json_loads a
              \<longleftrightarrow> (h_in \<noteq> [] \<and> json_loads h_in = None) \<or> (c_in \<noteq> [] \<and> json_loads c_in = None)
                  \<or> (s_in \<noteq> [] \<and> map_int (split_comma s_in) = None)"
    unfolding assms(3-6) by (simp add: malformed_def map_int_None)
  obtain r cfg1 where s: "set_configurations json_loads cfg a = (r, cfg1)"
    by (cases "set_configurations json_loads cfg a")
  have 7: "malformed json_loads a
              \<longleftrightarrow> (\<exists>e cfg'. menu_loop json_loads io web cfg ((line, a) # rest) = (Crashed e, cfg', []))"
  proof
    assume "malformed json_loads a"
    then obtain e where "r = Some e"
      using set_configurations_error [of json_loads cfg a] s by auto
    with s crash show "\<exists>e cfg'. menu_loop json_loads io web cfg ((line, a) # rest) = (Crashed e, cfg', [])"
      by blast
  next
    assume "\<exists>e cfg'. menu_loop json_loads io web cfg ((line, a) # rest) = (Crashed e, cfg', [])"
    then obtain e cfg' where m: "menu_loop json_loads io web cfg ((line, a) # rest) = (Crashed e, cfg', [])"
      by blast
    have "r \<noteq> None"
    proof
      assume "r = None"
      with s have "menu_loop json_loads io web cfg ((line, a) # rest)
                     = (case menu_loop json_loads io web cfg1 rest of
                          (e, cfg'', acts') \<Rightarrow> (e, cfg'', [ConfigUpdated] @ acts'))"
        by (simp add: step)
      with m show False by (simp split: prod.splits)
    qed
    then have n: "fst (set_configurations json_loads cfg a) \<noteq> None" using s by simp
    show "malformed json_loads a"
    proof (rule ccontr)
      assume "\<not> malformed json_loads a"
      then have "fst (set_configurations json_loads cfg a) = None"
        by (simp add: set_configurations_ok)
      with n show False by simp
    qed
  qed
  have 8: "\<not> malformed json_loads a
              \<longleftrightarrow> (\<exists>cfg'. menu_step json_loads io web cfg (line, a) = (None, cfg', [ConfigUpdated]))"
    using set_configurations_ok [of json_loads cfg a] s
    by (cases r) (simp_all add: step)
  from 1 2 3 4 5 6 7 8 show ?thesis by (intro conjI)
qed

theorem malformed_configuration_ends_menu_witness:
  "menu_loop no_json missing_dir_io serving_web (initial_config ())
      [(''2'', blank_answers\<lparr>ans_base_url := ''http://b.test'', ans_headers := ''{bad''\<rparr>),
       (''3'', blank_answers)]
     = (Crashed JSONDecodeError, (initial_config ())\<lparr>cfg_base_url := Some ''http://b.test''\<rparr>, [])
   \<and> menu_loop no_json missing_dir_io serving_web (initial_config ())
      [(''2'', blank_answers\<lparr>ans_wordlist := ''w.txt'', ans_cookies := ''{bad''\<rparr>),
       (''3'', blank_answers)]
     = (Crashed JSONDecodeError, (initial_config ())\<lparr>cfg_wordlist := ''w.txt''\<rparr>, [])
   \<and> menu_loop no_json missing_dir_io serving_web (initial_config ())
      [(''2'', blank_answers\<lparr>ans_base_url := ''http://b.test'', ans_methods := ''GET,POST'',
                              ans_status_codes := ''200,abc''\<rparr>),
       (''3'', blank_answers)]
     = (Crashed ValueError,
        (initial_config ())\<lparr>cfg_base_url := Some ''http://b.test'', cfg_methods := [''GET'', ''POST'']\<rparr>,
        [])
   \<and> menu_step no_json missing_dir_io serving_web (initial_config ())
        (''2'', blank_answers\<lparr>ans_status_codes := ''200, 404''\<rparr>)
     = (None, (initial_config ())\<lparr>cfg_valid_status_codes := [200, 404]\<rparr>, [ConfigUpdated])
   \<and> malformed no_json (blank_answers\<lparr>ans_base_url := ''http://b.test'', ans_headers := ''{bad''\<rparr>)"
proof -
  let ?a1 = "blank_answers\<lparr>ans_base_url := ''http://b.test'', ans_headers := ''{bad''\<rparr>"
  let ?a2 = "blank_answers\<lparr>ans_wordlist := ''w.txt'', ans_cookies := ''{bad''\<rparr>"
  let ?a3 = "blank_answers\<lparr>ans_base_url := ''http://b.test'', ans_methods := ''GET,POST'',
                              ans_status_codes := ''200,abc''\<rparr>"
  let ?a4 = "blank_answers\<lparr>ans_status_codes := ''200, 404''\<rparr>"
  have l: "strip isspace ''2'' = ''2''"
    by (simp add: strip_def rstrip_def lstrip_def isspace_def)
  have c1: "(initial_config ())\<lparr>cfg_base_url := Some ''http://b.test''\<rparr> = (initial_config ())\<lparr>cfg_base_url :=
                       (if strip isspace (ans_base_url ?a1) \<noteq> []
                        then Some (strip isspace (ans_base_url ?a1)) else cfg_base_url (initial_config ())),
                     cfg_wordlist :=
                       (if strip isspace (ans_wordlist ?a1) \<noteq> []
                        then strip isspace (ans_wordlist ?a1) else cfg_wordlist (initial_config ())),
                     cfg_output_file :=
                       (if strip isspace (ans_output_file ?a1) \<noteq> []
                        then strip isspace (ans_output_file ?a1) else cfg_output_file (initial_config ()))\<rparr>"
    by (simp add: initial_config_def blank_answers_def strip_def rstrip_def lstrip_def isspace_def)
  have i1: "''{bad'' = strip isspace (ans_headers ?a1)" "[] = strip isspace (ans_cookies ?a1)"
    "[] = strip isspace (ans_methods ?a1)" "[] = strip isspace (ans_status_codes ?a1)"
    by (simp_all add: blank_answers_def strip_def rstrip_def lstrip_def isspace_def)
  note t1 = malformed_configuration_ends_menu [where json_loads = no_json and io = missing_dir_io
      and web = serving_web and cfg = "initial_config ()" and rest = "[(''3'', blank_answers)]",
      OF l c1 i1]
  have "''{bad'' \<noteq> [] \<and> no_json ''{bad'' = None" by (simp add: no_json_def)
  with t1 [THEN conjunct1]
  have 1: "menu_loop no_json missing_dir_io serving_web (initial_config ()) [(''2'', ?a1), (''3'', blank_answers)]
     = (Crashed JSONDecodeError, (initial_config ())\<lparr>cfg_base_url := Some ''http://b.test''\<rparr>, [])"
    by (rule mp)
  have "''{bad'' \<noteq> [] \<and> no_json ''{bad'' = None \<or> [] \<noteq> [] \<and> no_json [] = None
          \<or> [] \<noteq> [] \<and> map_int (split_comma []) = None"
    by (simp add: no_json_def)
  with t1 [THEN conjunct2, THEN conjunct2, THEN conjunct2, THEN conjunct2, THEN conjunct2, THEN conjunct1]
  have 5: "malformed no_json ?a1" by (rule iffD2)
  have c2: "(initial_config ())\<lparr>cfg_wordlist := ''w.txt''\<rparr> = (initial_config ())\<lparr>cfg_base_url :=
                       (if strip isspace (ans_base_url ?a2) \<noteq> []
                        then Some (strip isspace (ans_base_url ?a2)) else cfg_base_url (initial_config ())),
                     cfg_wordlist :=
                       (if strip isspace (ans_wordlist ?a2) \<noteq> []
                        then strip isspace (ans_wordlist ?a2) else cfg_wordlist (initial_config ())),
                     cfg_output_file :=
                       (if strip isspace (ans_output_file ?a2) \<noteq> []
                        then strip isspace (ans_output_file ?a2) else cfg_output_file (initial_config ()))\<rparr>"
    by (simp add: initial_config_def blank_answers_def strip_def rstrip_def lstrip_def isspace_def)
  have i2: "[] = strip isspace (ans_headers ?a2)" "''{bad'' = strip isspace (ans_cookies ?a2)"
    "[] = strip isspace (ans_methods ?a2)" "[] = strip isspace (ans_status_codes ?a2)"
    by (simp_all add: blank_answers_def strip_def rstrip_def lstrip_def isspace_def)
  note t2 = malformed_configuration_ends_menu [where json_loads = no_json and io = missing_dir_io
      and web = serving_web and cfg = "initial_config ()" and rest = "[(''3'', blank_answers)]" and hv = "()",
      OF l c2 i2]
  have "(([] = [] \<and> () = cfg_headers (initial_config ())) \<or> ([] \<noteq> [] \<and> no_json [] = Some ()))
          \<and> ''{bad'' \<noteq> [] \<and> no_json ''{bad'' = None"
    by (simp add: no_json_def)
  with t2 [THEN conjunct2, THEN conjunct1]
  have "menu_loop no_json missing_dir_io serving_web (initial_config ()) [(''2'', ?a2), (''3'', blank_answers)]
     = (Crashed JSONDecodeError, (initial_config ())\<lparr>cfg_wordlist := ''w.txt'', cfg_headers := ()\<rparr>, [])"
    by (rule mp)
  then have 2: "menu_loop no_json missing_dir_io serving_web (initial_config ()) [(''2'', ?a2), (''3'', blank_answers)]
     = (Crashed JSONDecodeError, (initial_config ())\<lparr>cfg_wordlist := ''w.txt''\<rparr>, [])"
    by (simp del: menu_loop.simps)
  have c3: "(initial_config ())\<lparr>cfg_base_url := Some ''http://b.test''\<rparr> = (initial_config ())\<lparr>cfg_base_url :=
                       (if strip isspace (ans_base_url ?a3) \<noteq> []
                        then Some (strip isspace (ans_base_url ?a3)) else cfg_base_url (initial_config ())),
                     cfg_wordlist :=
                       (if strip isspace (ans_wordlist ?a3) \<noteq> []
                        then strip isspace (ans_wordlist ?a3) else cfg_wordlist (initial_config ())),
                     cfg_output_file :=
                       (if strip isspace (ans_output_file ?a3) \<noteq> []
                        then strip isspace (ans_output_file ?a3) else cfg_output_file (initial_config ()))\<rparr>"
    by (simp add: initial_config_def blank_answers_def strip_def rstrip_def lstrip_def isspace_def)
  have i3: "[] = strip isspace (ans_headers ?a3)" "[] = strip isspace (ans_cookies ?a3)"
    "''GET,POST'' = strip isspace (ans_methods ?a3)" "''200,abc'' = strip isspace (ans_status_codes ?a3)"
    by (simp_all add: blank_answers_def strip_def rstrip_def lstrip_def isspace_def)
  note t3 = malformed_configuration_ends_menu [where json_loads = no_json and io = missing_dir_io
      and web = serving_web and cfg = "initial_config ()" and rest = "[(''3'', blank_answers)]" and hv = "()" and cv = "()",
      OF l c3 i3]
  have "(([] = [] \<and> () = cfg_headers (initial_config ())) \<or> ([] \<noteq> [] \<and> no_json [] = Some ()))
          \<and> (([] = [] \<and> () = cfg_cookies (initial_config ())) \<or> ([] \<noteq> [] \<and> no_json [] = Some ()))
          \<and> ''200,abc'' \<noteq> [] \<and> map_int (split_comma ''200,abc'') = None"
    by (simp add: py_int_def int_space_def is_digit_def strip_def rstrip_def lstrip_def)
  with t3 [THEN conjunct2, THEN conjunct2, THEN conjunct1]
  have "menu_loop no_json missing_dir_io serving_web (initial_config ()) [(''2'', ?a3), (''3'', blank_answers)]
     = (Crashed ValueError,
        (initial_config ())\<lparr>cfg_base_url := Some ''http://b.test'', cfg_headers := (), cfg_cookies := (),
           cfg_methods := (if ''GET,POST'' \<noteq> [] then split_comma ''GET,POST''
                           else cfg_methods (initial_config ()))\<rparr>,
        [])"
    by (rule mp)
  then have 3: "menu_loop no_json missing_dir_io serving_web (initial_config ()) [(''2'', ?a3), (''3'', blank_answers)]
     = (Crashed ValueError,
        (initial_config ())\<lparr>cfg_base_url := Some ''http://b.test'', cfg_methods := [''GET'', ''POST'']\<rparr>,
        [])"
    by (simp del: menu_loop.simps)
  have c4: "initial_config () = (initial_config ())\<lparr>cfg_base_url :=
                       (if strip isspace (ans_base_url ?a4) \<noteq> []
                        then Some (strip isspace (ans_base_url ?a4)) else cfg_base_url (initial_config ())),
                     cfg_wordlist :=
                       (if strip isspace (ans_wordlist ?a4) \<noteq> []
                        then strip isspace (ans_wordlist ?a4) else cfg_wordlist (initial_config ())),
                     cfg_output_file :=
                       (if strip isspace (ans_output_file ?a4) \<noteq> []
                        then strip isspace (ans_output_file ?a4) else cfg_output_file (initial_config ()))\<rparr>"
    by (simp add: initial_config_def blank_answers_def strip_def rstrip_def lstrip_def isspace_def)
  have i4: "[] = strip isspace (ans_headers ?a4)" "[] = strip isspace (ans_cookies ?a4)"
    "[] = strip isspace (ans_methods ?a4)" "''200, 404'' = strip isspace (ans_status_codes ?a4)"
    by (simp_all add: blank_answers_def strip_def rstrip_def lstrip_def isspace_def)
  note t4 = malformed_configuration_ends_menu [where json_loads = no_json and io = missing_dir_io
      and web = serving_web and cfg = "initial_config ()" and rest = "[(''3'', blank_answers)]" and hv = "()" and cv = "()" and codes = "[200, 404]",
      OF l c4 i4]
  have "(([] = [] \<and> () = cfg_headers (initial_config ())) \<or> ([] \<noteq> [] \<and> no_json [] = Some ()))
          \<and> (([] = [] \<and> () = cfg_cookies (initial_config ())) \<or> ([] \<noteq> [] \<and> no_json [] = Some ()))
          \<and> ((''200, 404'' = [] \<and> [200, 404] = cfg_valid_status_codes (initial_config ()))
              \<or> (''200, 404'' \<noteq> [] \<and> map_int (split_comma ''200, 404'') = Some [200, 404]))"
    by (simp add: py_int_def int_space_def is_digit_def strip_def rstrip_def lstrip_def)
  with t4 [THEN conjunct2, THEN conjunct2, THEN conjunct2, THEN conjunct1]
  have "menu_step no_json missing_dir_io serving_web (initial_config ()) (''2'', ?a4)
     = (None,
        (initial_config ())\<lparr>cfg_headers := (), cfg_cookies := (),
           cfg_methods := (if ([]::string) \<noteq> [] then split_comma [] else cfg_methods (initial_config ())),
           cfg_valid_status_codes := [200, 404]\<rparr>,
        [ConfigUpdated])"
    by (rule mp)
  then have 4: "menu_step no_json missing_dir_io serving_web (initial_config ()) (''2'', ?a4)
     = (None, (initial_config ())\<lparr>cfg_valid_status_codes := [200, 404]\<rparr>, [ConfigUpdated])"
    by simp
  from 1 2 3 4 5 show ?thesis by (intro conjI)
qed

text \<open>
  Claim C8 as stated fails: in the session \<open>malformed_session\<close> the status codes \<open>abc\<close> end
  the menu with \<open>ValueError\<close>; the view of the configuration that was asked for next never
  happens, and the target had already been replaced by the one typed with the malformed
  answer.
\<close>

theorem malformed_configuration_counterexample:
  "fst (interactive_menu no_json missing_dir_io serving_web () malformed_session) = Crashed ValueError
   \<and> cfg_base_url (fst (snd (interactive_menu no_json missing_dir_io serving_web () malformed_session)))
       = Some ''http://b.test''
   \<and> snd (snd (interactive_menu no_json missing_dir_io serving_web () malformed_session)) = [ConfigUpdated]"
  by (simp add: interactive_menu_def initial_config_def menu_step_def set_configurations_def
      blank_answers_def malformed_session_def Let_def strip_def rstrip_def lstrip_def isspace_def
      py_int_def int_space_def is_digit_def)

end
